theory Spec2Isabelle
  imports Main "HOL-Library.AList"
begin

section \<open>Python values\<close>

text \<open>
  A Python \<open>str\<close> is a sequence of code points, so \<open>len\<close> and slicing count code
  points: a string is a list of natural numbers.  \<open>lit\<close> turns an ASCII literal into
  such a string.
\<close>

type_synonym pystr = "nat list"

definition lit :: "string \<Rightarrow> pystr" where
  "lit s = map of_char s"

text \<open>
  A Python \<open>float\<close>: \<open>Finite neg m e\<close> is the number \<open>m * 2 ^ e\<close>, negated when
  \<open>neg\<close> holds (so there are two zeros), \<open>Infinite neg\<close> is \<open>inf\<close> or \<open>-inf\<close>.
\<close>

datatype pyfloat = Finite bool nat int | Infinite bool | NaN

text \<open>
  The world state is what \<open>json.loads\<close> or the storage client hands over: \<open>None\<close>,
  booleans, integers, floats, strings, lists and dicts.  A dict keeps insertion order, so it
  is an association list.  The keys of a parsed JSON object are strings, but \<open>dict()\<close> of
  a list of pairs makes a dict with other keys, so a key is any value.  \<open>JOther\<close> is a
  plain Python object (\<open>object()\<close>), which is none of these: the annotation of the state
  is \<open>Dict[str, Any]\<close>, and \<open>json.dumps\<close> rejects such a value.
\<close>

datatype json =
    JNull
  | JBool bool
  | JInt int
  | JFloat pyfloat
  | JStr pystr
  | JList "json list"
  | JObj "(json \<times> json) list"
  | JOther

type_synonym state = "(json \<times> json) list"

text \<open>
  The exceptions.  \<open>BackendError\<close> stands for whatever the client libraries of the
  language model and of the storage service raise (no API key, network, server errors).
\<close>

datatype py_error =
    TypeError | ValueError | OverflowError | AttributeError | IndexError | RuntimeError
  | BackendError

text \<open>
  What the embedding takes from the interpreter as given: \<open>int(s)\<close> for a string \<open>s\<close>
  (\<open>None\<close> when it raises ValueError), the length of \<open>repr(x)\<close> for a finite float
  \<open>x\<close>, and the limit on the number of digits in the conversion of an integer to text
  (\<open>sys.get_int_max_str_digits()\<close>, where 0 is no limit).
\<close>

record python =
  int_of_str :: "pystr \<Rightarrow> int option"
  float_repr_len :: "pyfloat \<Rightarrow> nat"
  max_str_digits :: nat

text \<open>\<open>d.get(k)\<close> and \<open>d[k] = v\<close> for a string \<open>k\<close>: an existing key keeps its place, a new
  key goes to the end.\<close>

definition dict_get :: "state \<Rightarrow> pystr \<Rightarrow> json" where
  "dict_get d k = (case map_of d (JStr k) of None \<Rightarrow> JNull | Some v \<Rightarrow> v)"

definition dict_set :: "pystr \<Rightarrow> json \<Rightarrow> state \<Rightarrow> state" where
  "dict_set k v d = AList.update (JStr k) v d"

text \<open>Truth value testing, and \<open>a or b\<close>.\<close>

fun py_truthy :: "json \<Rightarrow> bool" where
  "py_truthy JNull = False"
| "py_truthy (JBool b) = b"
| "py_truthy (JInt i) = (i \<noteq> 0)"
| "py_truthy (JFloat f) = (case f of Finite neg m e \<Rightarrow> m \<noteq> 0 | _ \<Rightarrow> True)"
| "py_truthy (JStr s) = (s \<noteq> [])"
| "py_truthy (JList xs) = (xs \<noteq> [])"
| "py_truthy (JObj kvs) = (kvs \<noteq> [])"
| "py_truthy JOther = True"

definition py_or :: "json \<Rightarrow> json \<Rightarrow> json" where
  "py_or a b = (if py_truthy a then a else b)"

text \<open>
  \<open>list(x)\<close>: a list is copied, a string gives its characters, a dict its keys; nothing
  else here is iterable.
\<close>

fun py_list :: "json \<Rightarrow> py_error + json list" where
  "py_list (JList xs) = Inr xs"
| "py_list (JStr s) = Inr (map (\<lambda>c. JStr [c]) s)"
| "py_list (JObj kvs) = Inr (map fst kvs)"
| "py_list JNull = Inl TypeError"
| "py_list (JBool b) = Inl TypeError"
| "py_list (JInt i) = Inl TypeError"
| "py_list (JFloat f) = Inl TypeError"
| "py_list JOther = Inl TypeError"

text \<open>
  \<open>int(x)\<close>: \<open>True\<close> is 1 and \<open>False\<close> is 0, a float is truncated towards zero
  (OverflowError for an infinity, ValueError for NaN), a string is parsed; anything else
  is a TypeError.
\<close>

fun float_trunc :: "pyfloat \<Rightarrow> py_error + int" where
  "float_trunc (Finite neg m e) =
     (let a = (if e \<ge> 0 then int m * 2 ^ nat e else int m div 2 ^ nat (- e))
      in Inr (if neg then - a else a))"
| "float_trunc (Infinite neg) = Inl OverflowError"
| "float_trunc NaN = Inl ValueError"

fun py_int :: "python \<Rightarrow> json \<Rightarrow> py_error + int" where
  "py_int py (JInt i) = Inr i"
| "py_int py (JBool b) = Inr (if b then 1 else 0)"
| "py_int py (JFloat f) = float_trunc f"
| "py_int py (JStr s) = (case int_of_str py s of None \<Rightarrow> Inl ValueError | Some i \<Rightarrow> Inr i)"
| "py_int py JNull = Inl TypeError"
| "py_int py (JList xs) = Inl TypeError"
| "py_int py (JObj kvs) = Inl TypeError"
| "py_int py JOther = Inl TypeError"

text \<open>
  Equality of two dict keys.  Booleans, integers and floats are compared as numbers
  (\<open>1 == 1.0 == True\<close>); \<open>num_of\<close> gives a number as \<open>n / 2 ^ k\<close>.  Everything else is
  equal to itself only; the lookup tries identity first, and \<open>json.loads\<close> yields one and
  the same object for every NaN, so NaN is found as a key.
\<close>

fun num_of :: "json \<Rightarrow> (int \<times> nat) option" where
  "num_of (JBool b) = Some (if b then 1 else 0, 0)"
| "num_of (JInt i) = Some (i, 0)"
| "num_of (JFloat (Finite neg m e)) =
     (let a = (if e \<ge> 0 then int m * 2 ^ nat e else int m)
      in Some (if neg then - a else a, if e \<ge> 0 then 0 else nat (- e)))"
| "num_of _ = None"

definition py_key_eq :: "json \<Rightarrow> json \<Rightarrow> bool" where
  "py_key_eq a b =
     (case (num_of a, num_of b) of
        (Some (n1, k1), Some (n2, k2)) \<Rightarrow> n1 * 2 ^ k2 = n2 * 2 ^ k1
      | (None, None) \<Rightarrow> a = b
      | _ \<Rightarrow> False)"

text \<open>Lists and dicts are not hashable and cannot be keys.\<close>

fun hashable :: "json \<Rightarrow> bool" where
  "hashable (JList xs) = False"
| "hashable (JObj kvs) = False"
| "hashable _ = True"

text \<open>\<open>d[k] = v\<close> for any key: an equal key that is present stays as it is and gets the
  new value.\<close>

fun dict_insert :: "json \<Rightarrow> json \<Rightarrow> state \<Rightarrow> state" where
  "dict_insert k v [] = [(k, v)]"
| "dict_insert k v ((k', v') # d) =
     (if py_key_eq k' k then (k', v) # d else (k', v') # dict_insert k v d)"

text \<open>
  \<open>dict(x)\<close>: a dict is copied.  The elements of a list or string must each be a
  sequence of two items, key and value: an element that is not iterable is a TypeError, one
  of another length a ValueError, and a key that is not hashable a TypeError.  Nothing else
  here is iterable.
\<close>

fun pair_of :: "json \<Rightarrow> py_error + (json \<times> json)" where
  "pair_of (JList xs) =
     (case xs of [k, v] \<Rightarrow> if hashable k then Inr (k, v) else Inl TypeError
      | _ \<Rightarrow> Inl ValueError)"
| "pair_of (JStr s) = (case s of [a, b] \<Rightarrow> Inr (JStr [a], JStr [b]) | _ \<Rightarrow> Inl ValueError)"
| "pair_of (JObj kvs) =
     (case kvs of [(k1, v1), (k2, v2)] \<Rightarrow> if hashable k1 then Inr (k1, k2) else Inl TypeError
      | _ \<Rightarrow> Inl ValueError)"
| "pair_of _ = Inl TypeError"

fun dict_of_pairs :: "json list \<Rightarrow> state \<Rightarrow> py_error + state" where
  "dict_of_pairs [] acc = Inr acc"
| "dict_of_pairs (x # xs) acc =
     (case pair_of x of Inl e \<Rightarrow> Inl e | Inr (k, v) \<Rightarrow> dict_of_pairs xs (dict_insert k v acc))"

fun py_dict :: "json \<Rightarrow> py_error + state" where
  "py_dict (JObj kvs) = Inr kvs"
| "py_dict (JList xs) = dict_of_pairs xs []"
| "py_dict (JStr s) = dict_of_pairs (map (\<lambda>c. JStr [c]) s) []"
| "py_dict JNull = Inl TypeError"
| "py_dict (JBool b) = Inl TypeError"
| "py_dict (JInt i) = Inl TypeError"
| "py_dict (JFloat f) = Inl TypeError"
| "py_dict JOther = Inl TypeError"

subsection \<open>The length of \<open>json.dumps(x, ensure_ascii=False)\<close>\<close>

text \<open>
  With \<open>ensure_ascii=False\<close> the encoder escapes the quote, the backslash and the control
  characters below U+0020 only: \<open>\b \t \n \f \r\<close> as two characters, the other control
  characters as \<open>\u00XX\<close>; every other code point is written as itself.  The separators
  are \<open>", "\<close> and \<open>": "\<close>.  An integer is written in decimal, which raises ValueError
  beyond the digit limit; NaN and the infinities are written \<open>NaN\<close>, \<open>Infinity\<close> and
  \<open>-Infinity\<close>.  A key that is not a string is written as a string: a number as the
  number is, \<open>True\<close>, \<open>False\<close> and \<open>None\<close> as \<open>true\<close>, \<open>false\<close> and \<open>null\<close>.
  Any other object, as a value or as a key, is a TypeError.
\<close>

definition esc_len :: "nat \<Rightarrow> nat" where
  "esc_len c =
     (if c = 34 \<or> c = 92 \<or> c = 8 \<or> c = 9 \<or> c = 10 \<or> c = 12 \<or> c = 13 then 2
      else if c < 32 then 6 else 1)"

definition str_len :: "pystr \<Rightarrow> nat" where
  "str_len s = 2 + sum_list (map esc_len s)"

fun digits :: "nat \<Rightarrow> nat" where
  "digits n = (if n < 10 then 1 else Suc (digits (n div 10)))"

declare digits.simps [simp del]

definition int_len :: "python \<Rightarrow> int \<Rightarrow> py_error + nat" where
  "int_len py i =
     (if max_str_digits py \<noteq> 0 \<and> digits (nat \<bar>i\<bar>) > max_str_digits py then Inl ValueError
      else Inr ((if i < 0 then 1 else 0) + digits (nat \<bar>i\<bar>)))"

fun float_len :: "python \<Rightarrow> pyfloat \<Rightarrow> nat" where
  "float_len py (Finite neg m e) = float_repr_len py (Finite neg m e)"
| "float_len py (Infinite neg) = (if neg then 9 else 8)"
| "float_len py NaN = 3"

fun key_len :: "python \<Rightarrow> json \<Rightarrow> py_error + nat" where
  "key_len py (JStr s) = Inr (str_len s)"
| "key_len py (JFloat f) = Inr (float_len py f + 2)"
| "key_len py (JBool b) = Inr (if b then 6 else 7)"
| "key_len py JNull = Inr 6"
| "key_len py (JInt i) = (case int_len py i of Inl e \<Rightarrow> Inl e | Inr n \<Rightarrow> Inr (n + 2))"
| "key_len py _ = Inl TypeError"

fun dumps_len :: "python \<Rightarrow> json \<Rightarrow> py_error + nat"
  and dumps_items :: "python \<Rightarrow> json list \<Rightarrow> py_error + nat"
  and dumps_pairs :: "python \<Rightarrow> (json \<times> json) list \<Rightarrow> py_error + nat" where
  "dumps_len py JNull = Inr 4"
| "dumps_len py (JBool b) = Inr (if b then 4 else 5)"
| "dumps_len py (JInt i) = int_len py i"
| "dumps_len py (JFloat f) = Inr (float_len py f)"
| "dumps_len py (JStr s) = Inr (str_len s)"
| "dumps_len py (JList xs) =
     (case dumps_items py xs of Inl e \<Rightarrow> Inl e | Inr n \<Rightarrow> Inr (n + 2))"
| "dumps_len py (JObj kvs) =
     (case dumps_pairs py kvs of Inl e \<Rightarrow> Inl e | Inr n \<Rightarrow> Inr (n + 2))"
| "dumps_len py JOther = Inl TypeError"
| "dumps_items py [] = Inr 0"
| "dumps_items py (x # xs) =
     (case dumps_len py x of Inl e \<Rightarrow> Inl e
      | Inr n \<Rightarrow> (case dumps_items py xs of Inl e \<Rightarrow> Inl e
          | Inr m \<Rightarrow> Inr (n + (if xs = [] then 0 else 2) + m)))"
| "dumps_pairs py [] = Inr 0"
| "dumps_pairs py ((k, v) # kvs) =
     (case key_len py k of Inl e \<Rightarrow> Inl e
      | Inr l \<Rightarrow> (case dumps_len py v of Inl e \<Rightarrow> Inl e
          | Inr n \<Rightarrow> (case dumps_pairs py kvs of Inl e \<Rightarrow> Inl e
              | Inr m \<Rightarrow> Inr (l + 2 + n + (if kvs = [] then 0 else 2) + m))))"

section \<open>db.py: the compactor and the store\<close>

definition MAX_JSON_BYTES :: nat where "MAX_JSON_BYTES = 200000"
definition MAX_EVENTS :: nat where "MAX_EVENTS = 200"
definition KEEP_EVENTS :: nat where "KEEP_EVENTS = 100"

text \<open>\<open>xs[-n:]\<close> for \<open>n > 0\<close>: the last \<open>n\<close> elements, all of them when there are fewer.\<close>

definition last_n :: "nat \<Rightarrow> 'a list \<Rightarrow> 'a list" where
  "last_n n xs = drop (length xs - n) xs"

text \<open>The expression of line 41: \<open>list(ws.get("events_log") or [])\<close>.\<close>

definition events_of :: "state \<Rightarrow> py_error + json list" where
  "events_of ws = py_list (py_or (dict_get ws (lit ''events_log'')) (JList []))"

text \<open>The expression of lines 47 and 69: \<open>int(ws.get("events_log_compacted") or 0)\<close>.\<close>

definition compacted_of :: "python \<Rightarrow> state \<Rightarrow> py_error + int" where
  "compacted_of py ws =
     py_int py (py_or (dict_get ws (lit ''events_log_compacted'')) (JInt 0))"

text \<open>\<open>prev = int(...); ws["events_log_compacted"] = prev + n\<close>\<close>

definition add_compacted :: "python \<Rightarrow> state \<Rightarrow> int \<Rightarrow> py_error + state" where
  "add_compacted py ws n =
     (case compacted_of py ws of
        Inl e \<Rightarrow> Inl e
      | Inr prev \<Rightarrow> Inr (dict_set (lit ''events_log_compacted'') (JInt (prev + n)) ws))"

text \<open>Lines 40 to 48: the copy, the events as a list, and the trim to the last 100.\<close>

definition trim_events :: "python \<Rightarrow> state \<Rightarrow> py_error + (state \<times> json list)" where
  "trim_events py state =
     (case events_of state of
        Inl e \<Rightarrow> Inl e
      | Inr events \<Rightarrow>
          if length events > MAX_EVENTS then
            (let removed = length events - KEEP_EVENTS;
                 events' = last_n KEEP_EVENTS events;
                 ws = dict_set (lit ''events_log'') (JList events') state
             in case add_compacted py ws (int removed) of
                  Inl e \<Rightarrow> Inl e
                | Inr ws' \<Rightarrow> Inr (ws', events'))
          else Inr (state, events))"

text \<open>Lines 52 to 55, for one key of the context; \<open>ctx\<close> may have keys of any kind.\<close>

definition clamp_key :: "pystr \<Rightarrow> state \<Rightarrow> state" where
  "clamp_key key ctx =
     (case dict_get ctx key of
        JStr val \<Rightarrow> if length val > 300 then dict_set key (JStr (take 300 val)) ctx else ctx
      | _ \<Rightarrow> ctx)"

text \<open>Lines 51 to 56.\<close>

definition clamp_context :: "state \<Rightarrow> py_error + state" where
  "clamp_context ws =
     (case py_dict (py_or (dict_get ws (lit ''context'')) (JObj [])) of
        Inl e \<Rightarrow> Inl e
      | Inr ctx \<Rightarrow>
          Inr (dict_set (lit ''context'')
                 (JObj (clamp_key (lit ''news'') (clamp_key (lit ''weather'') ctx))) ws))"

text \<open>The state and the local \<open>events\<close> as they stand before line 58.\<close>

definition compact_stage2 :: "python \<Rightarrow> state \<Rightarrow> py_error + (state \<times> json list)" where
  "compact_stage2 py state =
     (case trim_events py state of
        Inl e \<Rightarrow> Inl e
      | Inr (ws, events) \<Rightarrow>
          (case clamp_context ws of Inl e \<Rightarrow> Inl e | Inr ws' \<Rightarrow> Inr (ws', events)))"

text \<open>Lines 63 to 72, given the size measured at line 59.\<close>

definition aggressive_trim :: "python \<Rightarrow> state \<Rightarrow> json list \<Rightarrow> nat \<Rightarrow> py_error + state" where
  "aggressive_trim py ws events sz =
     (if sz > MAX_JSON_BYTES then
        if events \<noteq> [] then
          (let keep = last_n 25 events;
               extra_removed = int (length events) - int (length keep)
           in add_compacted py (dict_set (lit ''events_log'') (JList keep) ws)
                (max 0 extra_removed))
        else Inr ws
      else Inr ws)"

text \<open>The test of line 63 on the size of line 59; there is no size when the encoder raises.\<close>

definition oversize :: "python \<Rightarrow> state \<Rightarrow> bool" where
  "oversize py ws =
     (case dumps_len py (JObj ws) of Inl e \<Rightarrow> False | Inr sz \<Rightarrow> sz > MAX_JSON_BYTES)"

text \<open>The whole of \<open>compact_world_state\<close>; line 60 catches every exception of the encoder.\<close>

definition compact_world_state :: "python \<Rightarrow> state \<Rightarrow> py_error + state" where
  "compact_world_state py state =
     (case compact_stage2 py state of
        Inl e \<Rightarrow> Inl e
      | Inr (ws, events) \<Rightarrow>
          (case dumps_len py (JObj ws) of
             Inl e \<Rightarrow> Inr ws
           | Inr sz \<Rightarrow> aggressive_trim py ws events sz))"

text \<open>
  The store holds at most one row (\<open>world_state\<close>, \<open>last_updated\<close>) under the fixed id.
  \<open>configured\<close> says whether both Supabase settings are present, \<open>accepts\<close> whether the
  upsert of a given document goes through (the client library raises when it does not).
  The clock reading is an argument.
\<close>

type_synonym timestamp = pystr

record store =
  configured :: bool
  accepts :: "state \<Rightarrow> bool"
  row :: "(state \<times> timestamp) option"

definition save_world_state ::
  "python \<Rightarrow> timestamp \<Rightarrow> state \<Rightarrow> store \<Rightarrow> py_error + (timestamp \<times> store)" where
  "save_world_state py now updated_world_state sb =
     (if \<not> configured sb then Inl RuntimeError
      else case compact_world_state py updated_world_state of
             Inl e \<Rightarrow> Inl e
           | Inr compacted \<Rightarrow>
               if accepts sb compacted then Inr (now, sb\<lparr>row := Some (compacted, now)\<rparr>)
               else Inl BackendError)"

section \<open>llm.py: the response normaliser and the mediator\<close>

text \<open>
  \<open>t.replace(old, new)\<close>: the occurrences of \<open>old\<close> are found from the left and do not
  overlap; an empty \<open>old\<close> matches before every character and at the end.
\<close>

function py_replace :: "pystr \<Rightarrow> pystr \<Rightarrow> pystr \<Rightarrow> pystr" where
  "py_replace old new t =
     (if old = [] then new @ concat (map (\<lambda>c. c # new) t)
      else if t = [] then []
      else if take (length old) t = old then new @ py_replace old new (drop (length old) t)
      else hd t # py_replace old new (tl t))"
  by pat_completeness auto
termination
  by (relation "measure (\<lambda>(old, new, t). length t)") (auto simp: Suc_le_eq)

declare py_replace.simps [simp del]

text \<open>\<open>sub in t\<close>\<close>

fun py_contains :: "pystr \<Rightarrow> pystr \<Rightarrow> bool" where
  "py_contains sub [] = (sub = [])"
| "py_contains sub (c # cs) = (take (length sub) (c # cs) = sub \<or> py_contains sub cs)"

lemma py_replace_length_le:
  "old \<noteq> [] \<Longrightarrow> length new \<le> length old \<Longrightarrow> length (py_replace old new t) \<le> length t"
proof (induction old new t rule: py_replace.induct)
  case (1 old new t)
  show ?case
  proof (cases "t = []")
    case True
    then show ?thesis by (simp add: py_replace.simps [of old new "[]"] "1.prems")
  next
    case False
    note ne = this
    show ?thesis
    proof (cases "take (length old) t = old")
      case True
      then have "length (take (length old) t) = length old" by simp
      then have len: "length old \<le> length t" by simp
      have "length (py_replace old new (drop (length old) t)) \<le> length t - length old"
        using "1.IH"(1) [OF "1.prems"(1) ne True "1.prems"] by simp
      moreover have "py_replace old new t = new @ py_replace old new (drop (length old) t)"
        using "1.prems"(1) ne True by (subst py_replace.simps) simp
      ultimately show ?thesis using len "1.prems"(2) by simp
    next
      case False
      have "length (py_replace old new (tl t)) \<le> length t - 1"
        using "1.IH"(2) [OF "1.prems"(1) ne False "1.prems"] by simp
      moreover have "py_replace old new t = hd t # py_replace old new (tl t)"
        using "1.prems"(1) ne False by (subst py_replace.simps) simp
      ultimately show ?thesis using ne by (cases t) auto
    qed
  qed
qed

lemma py_replace_shrinks:
  "old \<noteq> [] \<Longrightarrow> length new < length old \<Longrightarrow> py_contains old t \<Longrightarrow>
   length (py_replace old new t) < length t"
proof (induction t)
  case Nil
  then show ?case by simp
next
  case (Cons c cs)
  show ?case
  proof (cases "take (length old) (c # cs) = old")
    case True
    then have "length (take (length old) (c # cs)) = length old" by simp
    then have len: "length old \<le> length (c # cs)" by (simp del: take_Suc_Cons)
    have "length (py_replace old new (drop (length old) (c # cs))) \<le> length (c # cs) - length old"
      using py_replace_length_le [of old new "drop (length old) (c # cs)"] Cons.prems by simp
    moreover have "py_replace old new (c # cs) = new @ py_replace old new (drop (length old) (c # cs))"
      using Cons.prems(1) True by (subst py_replace.simps) simp
    ultimately show ?thesis using len Cons.prems(2) by simp
  next
    case False
    then have "py_contains old cs" using Cons.prems(3) by simp
    then have "length (py_replace old new cs) < length cs"
      using Cons.IH Cons.prems by simp
    moreover have "py_replace old new (c # cs) = c # py_replace old new cs"
      using Cons.prems(1) False by (subst py_replace.simps) simp
    ultimately show ?thesis by simp
  qed
qed

text \<open>\<open>while "  " in t: t = t.replace("  ", " ")\<close>\<close>

function collapse_spaces :: "pystr \<Rightarrow> pystr" where
  "collapse_spaces t =
     (if py_contains [32, 32] t then collapse_spaces (py_replace [32, 32] [32] t) else t)"
  by pat_completeness auto
termination
  by (relation "measure length") (auto intro: py_replace_shrinks)

declare collapse_spaces.simps [simp del]

text \<open>The code points for which \<open>str.isspace\<close> holds; \<open>strip\<close> and \<open>rstrip\<close> remove them.\<close>

definition py_isspace :: "nat \<Rightarrow> bool" where
  "py_isspace c =
     ((9 \<le> c \<and> c \<le> 13) \<or> (28 \<le> c \<and> c \<le> 32) \<or> c = 133 \<or> c = 160 \<or> c = 5760 \<or>
      (8192 \<le> c \<and> c \<le> 8202) \<or> c = 8232 \<or> c = 8233 \<or> c = 8239 \<or> c = 8287 \<or> c = 12288)"

definition py_rstrip :: "pystr \<Rightarrow> pystr" where
  "py_rstrip t = rev (dropWhile py_isspace (rev t))"

definition py_strip :: "pystr \<Rightarrow> pystr" where
  "py_strip t = py_rstrip (dropWhile py_isspace t)"

text \<open>\<open>t[:k]\<close>: a negative \<open>k\<close> counts from the end.\<close>

definition slice_to :: "pystr \<Rightarrow> int \<Rightarrow> pystr" where
  "slice_to t k = (if k < 0 then take (nat (int (length t) + k)) t else take (nat k) t)"

text \<open>The bullet markers U+2022, hyphen, U+2013 and U+2014 (the last three with a space).\<close>

definition bullets :: "pystr list" where
  "bullets = [[8226], [45, 32], [8211, 32], [8212, 32]]"

definition normalize_summary :: "json \<Rightarrow> int \<Rightarrow> pystr" where
  "normalize_summary text max_len =
     (case text of
        JStr s \<Rightarrow>
          (let t = py_replace [13] [32] (py_replace [10] [32] s);
               t = fold (\<lambda>b t. py_replace b [] t) bullets t;
               t = collapse_spaces t;
               t = py_strip t
           in if int (length t) > max_len
              then py_rstrip (slice_to t (max_len - 1)) @ [8230]
              else t)
      | _ \<Rightarrow> [])"

text \<open>
  The outcome of the request to the language model and of \<open>json.loads\<close> on its reply:
  \<open>Failed\<close> is a request that raises, \<open>NoChoices\<close> a completion with an empty list
  of choices, \<open>NoContent\<close> a reply whose content is \<open>None\<close> or empty (the code parses
  \<open>"{}"\<close> then), \<open>Malformed\<close> a content that \<open>json.loads\<close> rejects, \<open>Json v\<close> a
  content that parses to \<open>v\<close>.  The backend is a function of the user payload (the
  system prompt is a constant); there is none when the client cannot be built.
\<close>

datatype backend_reply = Failed | NoChoices | NoContent | Malformed | Json json

abbreviation skey :: "string \<Rightarrow> json" where
  "skey s \<equiv> JStr (lit s)"

definition user_payload :: "state \<Rightarrow> state \<Rightarrow> json" where
  "user_payload intent current_world_state =
     JObj [(skey ''intent'', JObj intent),
           (skey ''current_world_state'', JObj current_world_state),
           (skey ''requirements'',
              JObj [(skey ''response_shape'',
                JObj [(skey ''updated_world_state'', JStr (lit ''object'')),
                      (skey ''summary'', JStr (lit ''string'')),
                      (skey ''metadata'', JObj [(skey ''changed'', JStr (lit ''boolean''))])])])]"

text \<open>The three fixed messages; 39 is the apostrophe.\<close>

definition parse_failure_summary :: pystr where
  "parse_failure_summary = lit ''An update occurred, but I couldn'' @ [39] @ lit ''t parse details.''"

definition no_changes_summary :: pystr where
  "no_changes_summary = lit ''No changes were applied.''"

definition nothing_noteworthy_summary :: pystr where
  "nothing_noteworthy_summary = lit ''The kingdom stirs, but nothing noteworthy happened.''"

text \<open>\<open>isinstance(x, dict)\<close>, and \<open>isinstance(summary, str) and summary\<close>\<close>

definition is_dict :: "json \<Rightarrow> bool" where
  "is_dict v = (case v of JObj d \<Rightarrow> True | _ \<Rightarrow> False)"

definition nonempty_str :: "json \<Rightarrow> bool" where
  "nonempty_str v = (case v of JStr s \<Rightarrow> s \<noteq> [] | _ \<Rightarrow> False)"

text \<open>Lines 107 to 120; \<open>parsed.get\<close> exists on a dict only.\<close>

definition validate_parsed :: "json \<Rightarrow> state \<Rightarrow> py_error + (state \<times> pystr)" where
  "validate_parsed parsed current_world_state =
     (case parsed of
        JObj kvs \<Rightarrow>
          (let updated_world_state = dict_get kvs (lit ''updated_world_state'');
               summary = dict_get kvs (lit ''summary'');
               (uws, summary) =
                 (case updated_world_state of
                    JObj d \<Rightarrow> (d, summary)
                  | _ \<Rightarrow> (current_world_state,
                           if \<not> nonempty_str summary then JStr no_changes_summary else summary));
               summary = (if \<not> nonempty_str summary then JStr nothing_noteworthy_summary
                          else summary)
           in Inr (uws, normalize_summary summary 220))
      | _ \<Rightarrow> Inl AttributeError)"

text \<open>
  Lines 36 to 105: the client is built, the payload is serialised for the request (which
  raises what the encoder raises), the content of the first choice is taken, and it is
  parsed.
\<close>

definition llm_transform_world_state ::
  "python \<Rightarrow> (json \<Rightarrow> backend_reply) option \<Rightarrow> state \<Rightarrow> state
     \<Rightarrow> py_error + (state \<times> pystr)" where
  "llm_transform_world_state py client intent current_world_state =
     (case client of
        None \<Rightarrow> Inl BackendError
      | Some ask \<Rightarrow>
          (let payload = user_payload intent current_world_state
           in case dumps_len py payload of
                Inl e \<Rightarrow> Inl e
              | Inr n \<Rightarrow>
                  (case ask payload of
                     Failed \<Rightarrow> Inl BackendError
                   | NoChoices \<Rightarrow> Inl IndexError
                   | Malformed \<Rightarrow> Inr (current_world_state, parse_failure_summary)
                   | NoContent \<Rightarrow> validate_parsed (JObj []) current_world_state
                   | Json parsed \<Rightarrow> validate_parsed parsed current_world_state)))"

section \<open>server.py: create_kingdom\<close>

text \<open>\<open>d.setdefault(k, v)\<close> for a string \<open>k\<close>: a key that is present keeps its value.\<close>

definition setdefault :: "pystr \<Rightarrow> json \<Rightarrow> state \<Rightarrow> state" where
  "setdefault k v d = (case map_of d (JStr k) of None \<Rightarrow> d @ [(JStr k, v)] | Some _ \<Rightarrow> d)"

text \<open>Lines 187 to 189: the theme goes into the intent when it is given and not empty.\<close>

definition init_intent :: "pystr \<Rightarrow> pystr option \<Rightarrow> state" where
  "init_intent kingdom_name theme =
     [(skey ''type'', JStr (lit ''init'')), (skey ''kingdom_name'', JStr kingdom_name)] @
     (case theme of
        None \<Rightarrow> []
      | Some th \<Rightarrow> if th \<noteq> [] then [(skey ''theme'', JStr th)] else [])"

text \<open>
  The tool returns the summary and the timestamp, and the store as the save leaves it.
  The other fields of its reply (the backstory and the starting point read off the same
  state, the playbook and the system prompt, which are constants) are left out.
\<close>

definition create_kingdom ::
  "python \<Rightarrow> (json \<Rightarrow> backend_reply) option \<Rightarrow> timestamp \<Rightarrow> pystr \<Rightarrow> pystr option \<Rightarrow> store
     \<Rightarrow> py_error + ((pystr \<times> timestamp) \<times> store)" where
  "create_kingdom py client now kingdom_name theme sb =
     (case llm_transform_world_state py client (init_intent kingdom_name theme) [] of
        Inl e \<Rightarrow> Inl e
      | Inr (updated_state, summary) \<Rightarrow>
          (case save_world_state py now
                  (setdefault (lit ''kingdom_name'') (JStr kingdom_name) updated_state) sb of
             Inl e \<Rightarrow> Inl e
           | Inr (last_updated, sb') \<Rightarrow> Inr ((summary, last_updated), sb')))"

section \<open>The validation rules in the words of the specification\<close>

text \<open>
  Section 4.4 of the specification lists, in order, how the mediator settles on a summary
  before it normalises it.  The two definitions below follow that list and not the code;
  the theorem for C8 compares them with the code.
\<close>

text \<open>
  For a reply that is a JSON object: its summary when that is a non-empty string;
  otherwise \<open>No changes were applied.\<close> when its state is missing or not an object, and
  \<open>The kingdom stirs, but nothing noteworthy happened.\<close> when its state is valid.
\<close>

definition spec_final_summary :: "state \<Rightarrow> json" where
  "spec_final_summary reply =
     (if nonempty_str (dict_get reply (lit ''summary'')) then dict_get reply (lit ''summary'')
      else if is_dict (dict_get reply (lit ''updated_world_state''))
           then JStr nothing_noteworthy_summary
           else JStr no_changes_summary)"

text \<open>
  For any reply: the fixed message when the reply cannot be parsed at all; an empty
  content counts as the empty object.  (On a failed request, on a completion
  without choices and on a reply that is JSON but not an object the code raises and there
  is no summary.)
\<close>

definition spec_chosen_summary :: "backend_reply \<Rightarrow> json" where
  "spec_chosen_summary r =
     (case r of
        Malformed \<Rightarrow> JStr parse_failure_summary
      | NoContent \<Rightarrow> spec_final_summary []
      | Json v \<Rightarrow> (case v of JObj kvs \<Rightarrow> spec_final_summary kvs | _ \<Rightarrow> JNull)
      | Failed \<Rightarrow> JNull
      | NoChoices \<Rightarrow> JNull)"

section \<open>A sample interpreter, store and backends\<close>

text \<open>
  For the evaluations below: the digit limit is the default of CPython 3.11.  The sample
  \<open>int()\<close> reads a decimal numeral of ASCII digits as Python does: whitespace around it
  is ignored (the separators U+001C to U+001F are not whitespace here), a sign may come
  first, and single underscores may stand between digits.
  (Python also reads the decimal digits of other scripts, and it rejects a numeral beyond
  the digit limit.)  The length of \<open>repr\<close> is given for the floats with three characters
  such as \<open>1.5\<close>; the samples use no other float.
\<close>

fun dec_value :: "pystr \<Rightarrow> int \<Rightarrow> bool \<Rightarrow> int option" where
  "dec_value [] acc after_digit = (if after_digit then Some acc else None)"
| "dec_value (c # cs) acc after_digit =
     (if 48 \<le> c \<and> c \<le> 57 then dec_value cs (acc * 10 + (int c - 48)) True
      else if c = 95 \<and> after_digit then dec_value cs acc False
      else None)"

definition int_space :: "nat \<Rightarrow> bool" where
  "int_space c = (py_isspace c \<and> \<not> (28 \<le> c \<and> c \<le> 31))"

definition ascii_int :: "pystr \<Rightarrow> int option" where
  "ascii_int s =
     (case rev (dropWhile int_space (rev (dropWhile int_space s))) of
        [] \<Rightarrow> None
      | c # cs \<Rightarrow>
          if c = 45 then map_option uminus (dec_value cs 0 False)
          else if c = 43 then dec_value cs 0 False
          else dec_value (c # cs) 0 False)"

definition sample_py :: python where
  "sample_py = \<lparr>int_of_str = ascii_int, float_repr_len = (\<lambda>f. 3), max_str_digits = 4300\<rparr>"

text \<open>A store that is configured, accepts every document and holds no row.\<close>

definition open_store :: store where
  "open_store = \<lparr>configured = True, accepts = (\<lambda>d. True), row = None\<rparr>"




definition dashes_backend :: "json \<Rightarrow> backend_reply" where
  "dashes_backend payload = Json (JObj [(skey ''summary'', JStr (lit ''--  x''))])"

definition zed_backend :: "json \<Rightarrow> backend_reply" where
  "zed_backend payload =
     Json (JObj [(skey ''updated_world_state'', JObj [(skey ''kingdom_name'', JStr (lit ''Zed''))]),
                 (skey ''summary'', JStr (lit ''Hi''))])"

definition nameless_backend :: "json \<Rightarrow> backend_reply" where
  "nameless_backend payload =
     Json (JObj [(skey ''updated_world_state'', JObj [(skey ''day'', JInt 1)]),
                 (skey ''summary'', JStr (lit ''Hi''))])"

section \<open>Auxiliary facts\<close>

lemma lit_eq_iff [simp]: "lit a = lit b \<longleftrightarrow> a = b"
  unfolding lit_def by (simp add: inj_map_eq_map inj_on_def)

lemma lit_empty_iff [simp]: "lit s = [] \<longleftrightarrow> s = []"
  by (simp add: lit_def)

lemma dict_get_set [simp]:
  "dict_get (dict_set k v d) k' = (if k' = k then v else dict_get d k')"
  by (simp add: dict_get_def dict_set_def update_conv)

lemma map_of_dict_set:
  "map_of (dict_set k v d) k' = (if k' = JStr k then Some v else map_of d k')"
  by (simp add: dict_set_def update_conv)

lemma dict_set_triv: "map_of d (JStr k) = Some v \<Longrightarrow> dict_set k v d = d"
  by (simp add: dict_set_def update_triv)

lemma add_compacted_Inr:
  "add_compacted py ws n = Inr ws' \<Longrightarrow>
   \<exists>prev. compacted_of py ws = Inr prev \<and>
          ws' = dict_set (lit ''events_log_compacted'') (JInt (prev + n)) ws"
  by (auto simp: add_compacted_def split: sum.splits)

lemma length_last_n [simp]: "length (last_n n xs) = min n (length xs)"
  by (simp add: last_n_def)

lemma last_n_last_n: "m \<le> n \<Longrightarrow> last_n m (last_n n xs) = last_n m xs"
proof -
  assume mn: "m \<le> n"
  have "length xs - (length xs - n + m) + (length xs - n) = length xs - m"
    using mn by arith
  then show ?thesis by (simp add: last_n_def)
qed

lemma last_n_all: "length xs \<le> n \<Longrightarrow> last_n n xs = xs"
  by (simp add: last_n_def)

lemma compacted_of_set_other [simp]:
  "k \<noteq> lit ''events_log_compacted'' \<Longrightarrow> compacted_of py (dict_set k v d) = compacted_of py d"
  by (simp add: compacted_of_def)

lemma events_of_set_other [simp]:
  "k \<noteq> lit ''events_log'' \<Longrightarrow> events_of (dict_set k v d) = events_of d"
  by (simp add: events_of_def)

lemma events_of_set [simp]:
  "events_of (dict_set (lit ''events_log'') (JList xs) d) = Inr xs"
  by (simp add: events_of_def py_or_def)

lemma compacted_of_set [simp]:
  "compacted_of py (dict_set (lit ''events_log_compacted'') (JInt i) d) = Inr i"
  by (simp add: compacted_of_def py_or_def)

lemma trim_events_Inr:
  assumes "trim_events py s = Inr (ws, ev)"
  shows "\<exists>es. events_of s = Inr es \<and>
           (if length es > 200
            then ev = last_n 100 es \<and>
                 (\<exists>prev. compacted_of py s = Inr prev \<and>
                    ws = dict_set (lit ''events_log_compacted'') (JInt (prev + (int (length es) - 100)))
                           (dict_set (lit ''events_log'') (JList ev) s))
            else ev = es \<and> ws = s)"
  using assms
  by (auto simp: trim_events_def MAX_EVENTS_def KEEP_EVENTS_def Let_def of_nat_diff
           dest!: add_compacted_Inr split: sum.splits if_splits)

lemma clamp_context_Inr:
  "clamp_context ws = Inr ws' \<Longrightarrow>
   \<exists>ctx. py_dict (py_or (dict_get ws (lit ''context'')) (JObj [])) = Inr ctx \<and>
         ws' = dict_set (lit ''context'')
                 (JObj (clamp_key (lit ''news'') (clamp_key (lit ''weather'') ctx))) ws"
  by (auto simp: clamp_context_def split: sum.splits)

lemma compact_stage2_Inr:
  "compact_stage2 py s = Inr (ws', ev) \<Longrightarrow>
   \<exists>ws. trim_events py s = Inr (ws, ev) \<and> clamp_context ws = Inr ws'"
  by (auto simp: compact_stage2_def split: sum.splits)

lemma aggressive_trim_Inr:
  assumes "aggressive_trim py ws ev sz = Inr s'"
  shows "if sz > 200000 \<and> ev \<noteq> []
         then \<exists>prev. compacted_of py ws = Inr prev \<and>
                s' = dict_set (lit ''events_log_compacted'')
                       (JInt (prev + (int (length ev) - int (min 25 (length ev)))))
                       (dict_set (lit ''events_log'') (JList (last_n 25 ev)) ws)
         else s' = ws"
  using assms
  by (auto simp: aggressive_trim_def MAX_JSON_BYTES_def Let_def
           dest!: add_compacted_Inr split: if_splits)

lemma compact_Inr:
  "compact_world_state py s = Inr s' \<Longrightarrow>
   \<exists>ws ev. compact_stage2 py s = Inr (ws, ev) \<and>
     (isl (dumps_len py (JObj ws)) \<and> s' = ws \<or>
      (\<exists>sz. dumps_len py (JObj ws) = Inr sz \<and> aggressive_trim py ws ev sz = Inr s'))"
  by (auto simp del: dumps_len.simps simp: compact_world_state_def split: sum.splits)

lemma dict_get_clamp_key:
  "dict_get (clamp_key k ctx) k' =
     (if k' = k then (case dict_get ctx k of
                        JStr v \<Rightarrow> if length v > 300 then JStr (take 300 v) else JStr v
                      | x \<Rightarrow> x)
      else dict_get ctx k')"
  by (auto simp: clamp_key_def split: json.splits)

lemma py_or_obj: "py_dict (py_or (JObj ctx) (JObj [])) = Inr ctx"
  by (simp add: py_or_def)

lemma compact_context:
  assumes "compact_world_state py s = Inr s'"
  shows "\<exists>ctx. py_dict (py_or (dict_get s (lit ''context'')) (JObj [])) = Inr ctx \<and>
           map_of s' (skey ''context'') =
             Some (JObj (clamp_key (lit ''news'') (clamp_key (lit ''weather'') ctx)))"
proof -
  from compact_Inr [OF assms] obtain ws ev where
    s2: "compact_stage2 py s = Inr (ws, ev)" and
    fin: "isl (dumps_len py (JObj ws)) \<and> s' = ws \<or>
      (\<exists>sz. dumps_len py (JObj ws) = Inr sz \<and> aggressive_trim py ws ev sz = Inr s')"
    by blast
  from compact_stage2_Inr [OF s2] obtain ws1 where
    t: "trim_events py s = Inr (ws1, ev)" and c: "clamp_context ws1 = Inr ws" by blast
  from clamp_context_Inr [OF c] obtain ctx where
    d: "py_dict (py_or (dict_get ws1 (lit ''context'')) (JObj [])) = Inr ctx" and
    ws: "ws = dict_set (lit ''context'')
                 (JObj (clamp_key (lit ''news'') (clamp_key (lit ''weather'') ctx))) ws1" by blast
  have g1: "dict_get ws1 (lit ''context'') = dict_get s (lit ''context'')"
    using trim_events_Inr [OF t] by (auto split: if_splits)
  have m: "map_of ws (skey ''context'') =
             Some (JObj (clamp_key (lit ''news'') (clamp_key (lit ''weather'') ctx)))"
    by (simp add: ws map_of_dict_set)
  have "map_of s' (skey ''context'') = map_of ws (skey ''context'')"
    using fin
  proof
    assume "isl (dumps_len py (JObj ws)) \<and> s' = ws"
    then show ?thesis by simp
  next
    assume "\<exists>sz. dumps_len py (JObj ws) = Inr sz \<and> aggressive_trim py ws ev sz = Inr s'"
    then obtain sz where "aggressive_trim py ws ev sz = Inr s'" by blast
    from aggressive_trim_Inr [OF this] show ?thesis
      by (auto simp: map_of_dict_set split: if_splits)
  qed
  then show ?thesis using d g1 m by auto
qed

subsection \<open>What a successful run of the compactor returns\<close>

lemma stage2_result:
  assumes "compact_stage2 py s = Inr (ws, ev)"
  shows "\<exists>es ctx. events_of s = Inr es \<and>
           py_dict (py_or (dict_get s (lit ''context'')) (JObj [])) = Inr ctx \<and>
           ev = (if length es > 200 then last_n 100 es else es) \<and>
           (if length es > 200
            then \<exists>p. compacted_of py s = Inr p \<and>
                   ws = dict_set (lit ''context'')
                          (JObj (clamp_key (lit ''news'') (clamp_key (lit ''weather'') ctx)))
                          (dict_set (lit ''events_log_compacted'')
                             (JInt (p + (int (length es) - 100)))
                             (dict_set (lit ''events_log'') (JList ev) s))
            else ws = dict_set (lit ''context'')
                          (JObj (clamp_key (lit ''news'') (clamp_key (lit ''weather'') ctx))) s)"
proof -
  from compact_stage2_Inr [OF assms] obtain ws1 where
    t: "trim_events py s = Inr (ws1, ev)" and c: "clamp_context ws1 = Inr ws" by blast
  from clamp_context_Inr [OF c] obtain ctx where
    d: "py_dict (py_or (dict_get ws1 (lit ''context'')) (JObj [])) = Inr ctx" and
    ws: "ws = dict_set (lit ''context'')
                 (JObj (clamp_key (lit ''news'') (clamp_key (lit ''weather'') ctx))) ws1" by blast
  from trim_events_Inr [OF t] obtain es where
    es: "events_of s = Inr es" and
    tr: "if length es > 200
            then ev = last_n 100 es \<and>
                 (\<exists>prev. compacted_of py s = Inr prev \<and>
                    ws1 = dict_set (lit ''events_log_compacted'') (JInt (prev + (int (length es) - 100)))
                           (dict_set (lit ''events_log'') (JList ev) s))
            else ev = es \<and> ws1 = s" by blast
  have g1: "dict_get ws1 (lit ''context'') = dict_get s (lit ''context'')"
    using tr by (auto split: if_splits)
  show ?thesis
  proof (cases "length es > 200")
    case True
    with tr es d g1 ws show ?thesis by auto
  next
    case False
    with tr es d g1 ws show ?thesis by auto
  qed
qed

lemma stage2_events:
  assumes "compact_stage2 py s = Inr (ws, ev)"
  shows "events_of ws = Inr ev \<and> length ev \<le> 200"
proof -
  from stage2_result [OF assms] obtain es ctx where
    es: "events_of s = Inr es" and
    ev: "ev = (if length es > 200 then last_n 100 es else es)" and
    ws: "if length es > 200
            then \<exists>p. compacted_of py s = Inr p \<and>
                   ws = dict_set (lit ''context'')
                          (JObj (clamp_key (lit ''news'') (clamp_key (lit ''weather'') ctx)))
                          (dict_set (lit ''events_log_compacted'')
                             (JInt (p + (int (length es) - 100)))
                             (dict_set (lit ''events_log'') (JList ev) s))
            else ws = dict_set (lit ''context'')
                          (JObj (clamp_key (lit ''news'') (clamp_key (lit ''weather'') ctx))) s"
    by blast
  show ?thesis
  proof (cases "length es > 200")
    case True
    then obtain p where "ws = dict_set (lit ''context'')
                          (JObj (clamp_key (lit ''news'') (clamp_key (lit ''weather'') ctx)))
                          (dict_set (lit ''events_log_compacted'')
                             (JInt (p + (int (length es) - 100)))
                             (dict_set (lit ''events_log'') (JList ev) s))"
      using ws by auto
    then have "events_of ws = Inr ev" by simp
    moreover have "length ev \<le> 200" using True ev by simp
    ultimately show ?thesis by simp
  next
    case False
    then have "ws = dict_set (lit ''context'')
                          (JObj (clamp_key (lit ''news'') (clamp_key (lit ''weather'') ctx))) s"
      using ws by simp
    then have "events_of ws = events_of s" by simp
    then show ?thesis using False ev es by simp
  qed
qed

lemma oversize_iff: "dumps_len py (JObj ws) = Inr sz \<Longrightarrow> oversize py ws \<longleftrightarrow> sz > 200000"
  by (simp add: oversize_def MAX_JSON_BYTES_def del: dumps_len.simps)

lemma not_oversize: "isl (dumps_len py (JObj ws)) \<Longrightarrow> \<not> oversize py ws"
  by (auto simp add: oversize_def isl_def simp del: dumps_len.simps)

lemma compact_result:
  assumes "compact_world_state py s = Inr s'"
  shows "\<exists>ws ev. compact_stage2 py s = Inr (ws, ev) \<and>
           (if oversize py ws \<and> ev \<noteq> []
            then \<exists>p. compacted_of py ws = Inr p \<and>
                   s' = dict_set (lit ''events_log_compacted'')
                          (JInt (p + (int (length ev) - int (min 25 (length ev)))))
                          (dict_set (lit ''events_log'') (JList (last_n 25 ev)) ws)
            else s' = ws)"
proof -
  from compact_Inr [OF assms] obtain ws ev where
    s2: "compact_stage2 py s = Inr (ws, ev)" and
    fin: "isl (dumps_len py (JObj ws)) \<and> s' = ws \<or>
      (\<exists>sz. dumps_len py (JObj ws) = Inr sz \<and> aggressive_trim py ws ev sz = Inr s')"
    by blast
  from fin have
    "if oversize py ws \<and> ev \<noteq> []
            then \<exists>p. compacted_of py ws = Inr p \<and>
                   s' = dict_set (lit ''events_log_compacted'')
                          (JInt (p + (int (length ev) - int (min 25 (length ev)))))
                          (dict_set (lit ''events_log'') (JList (last_n 25 ev)) ws)
            else s' = ws"
  proof
    assume "isl (dumps_len py (JObj ws)) \<and> s' = ws"
    then show ?thesis using not_oversize by auto
  next
    assume "\<exists>sz. dumps_len py (JObj ws) = Inr sz \<and> aggressive_trim py ws ev sz = Inr s'"
    then obtain sz where sz: "dumps_len py (JObj ws) = Inr sz"
      and a: "aggressive_trim py ws ev sz = Inr s'" by blast
    from aggressive_trim_Inr [OF a] oversize_iff [OF sz] show ?thesis
      by (auto split: if_splits)
  qed
  with s2 show ?thesis by blast
qed


lemma compact_log_and_counter:
  assumes "compact_world_state py s = Inr s'"
  shows "\<exists>es ws ev. events_of s = Inr es \<and> compact_stage2 py s = Inr (ws, ev) \<and>
           (if length es > 200 \<or> (oversize py ws \<and> es \<noteq> [])
            then dict_get s' (lit ''events_log'') =
                   JList (if oversize py ws then last_n 25 ev else ev) \<and>
                 (\<exists>c. compacted_of py s = Inr c \<and>
                   dict_get s' (lit ''events_log_compacted'') =
                     JInt (c + (int (length es) -
                        int (length (if oversize py ws then last_n 25 ev else ev)))))
            else dict_get s' (lit ''events_log'') = dict_get s (lit ''events_log'') \<and>
                 dict_get s' (lit ''events_log_compacted'') =
                   dict_get s (lit ''events_log_compacted''))"
proof -
  from compact_result [OF assms] obtain ws ev where
    s2: "compact_stage2 py s = Inr (ws, ev)" and
    fin: "if oversize py ws \<and> ev \<noteq> []
            then \<exists>p. compacted_of py ws = Inr p \<and>
                   s' = dict_set (lit ''events_log_compacted'')
                          (JInt (p + (int (length ev) - int (min 25 (length ev)))))
                          (dict_set (lit ''events_log'') (JList (last_n 25 ev)) ws)
            else s' = ws" by blast
  from stage2_result [OF s2] obtain es ctx where
    es: "events_of s = Inr es" and
    ev: "ev = (if length es > 200 then last_n 100 es else es)" and
    ws: "if length es > 200
            then \<exists>p. compacted_of py s = Inr p \<and>
                   ws = dict_set (lit ''context'')
                          (JObj (clamp_key (lit ''news'') (clamp_key (lit ''weather'') ctx)))
                          (dict_set (lit ''events_log_compacted'')
                             (JInt (p + (int (length es) - 100)))
                             (dict_set (lit ''events_log'') (JList ev) s))
            else ws = dict_set (lit ''context'')
                          (JObj (clamp_key (lit ''news'') (clamp_key (lit ''weather'') ctx))) s"
    by blast
  let ?C = "lit ''events_log_compacted''"
  let ?E = "lit ''events_log''"
  have "if length es > 200 \<or> (oversize py ws \<and> es \<noteq> [])
            then dict_get s' ?E = JList (if oversize py ws then last_n 25 ev else ev) \<and>
                 (\<exists>c. compacted_of py s = Inr c \<and>
                   dict_get s' ?C =
                     JInt (c + (int (length es) -
                        int (length (if oversize py ws then last_n 25 ev else ev)))))
            else dict_get s' ?E = dict_get s ?E \<and> dict_get s' ?C = dict_get s ?C"
  proof (cases "length es > 200")
    case True
    then obtain c where c: "compacted_of py s = Inr c" and
      w: "ws = dict_set (lit ''context'')
                          (JObj (clamp_key (lit ''news'') (clamp_key (lit ''weather'') ctx)))
                          (dict_set ?C (JInt (c + (int (length es) - 100)))
                             (dict_set (lit ''events_log'') (JList ev) s))"
      using ws by auto
    have lev: "length ev = 100" using True ev by simp
    then have ne: "ev \<noteq> []" by auto
    have cw: "compacted_of py ws = Inr (c + (int (length es) - 100))" by (simp add: w)
    show ?thesis
    proof (cases "oversize py ws")
      case ov: True
      with fin ne cw have "s' = dict_set ?C
                          (JInt (c + (int (length es) - 100) + (int (length ev) - int (min 25 (length ev)))))
                          (dict_set (lit ''events_log'') (JList (last_n 25 ev)) ws)"
        by auto
      then have "dict_get s' ?C = JInt (c + (int (length es) - 25)) \<and>
                 dict_get s' ?E = JList (last_n 25 ev)" using lev by simp
      then show ?thesis using True ov c lev by simp
    next
      case nov: False
      with fin have "s' = ws" by simp
      then have "dict_get s' ?C = JInt (c + (int (length es) - 100)) \<and>
                 dict_get s' ?E = JList ev" by (simp add: w)
      then show ?thesis using True nov c lev by simp
    qed
  next
    case False
    then have w: "ws = dict_set (lit ''context'')
                          (JObj (clamp_key (lit ''news'') (clamp_key (lit ''weather'') ctx))) s"
      and ee: "ev = es" using ws ev by simp_all
    have cw: "compacted_of py ws = compacted_of py s" by (simp add: w)
    show ?thesis
    proof (cases "oversize py ws \<and> es \<noteq> []")
      case ov: True
      with fin ee obtain p where p: "compacted_of py s = Inr p" and
        "s' = dict_set ?C (JInt (p + (int (length ev) - int (min 25 (length ev)))))
                          (dict_set (lit ''events_log'') (JList (last_n 25 ev)) ws)"
        using cw by auto
      then have "dict_get s' ?C = JInt (p + (int (length es) - int (min 25 (length es)))) \<and>
                 dict_get s' ?E = JList (last_n 25 ev)"
        using ee by simp
      then show ?thesis using ov p ee by auto
    next
      case nov: False
      with fin ee have "s' = ws" by auto
      then have "dict_get s' ?C = dict_get s ?C \<and> dict_get s' ?E = dict_get s ?E"
        by (simp add: w)
      then show ?thesis using False nov by auto
    qed
  qed
  with es s2 show ?thesis by blast
qed

lemma save_stores_compacted:
  "compact_world_state py s = Inr s' \<Longrightarrow> save_world_state py now s sb = Inr (t, sb') \<Longrightarrow>
   t = now \<and> sb' = sb\<lparr>row := Some (s', now)\<rparr>"
  by (auto simp: save_world_state_def split: if_splits)

lemma compact_other_keys:
  assumes "compact_world_state py s = Inr s'"
      and "k \<noteq> skey ''events_log''" "k \<noteq> skey ''events_log_compacted''" "k \<noteq> skey ''context''"
  shows "map_of s' k = map_of s k"
proof -
  from compact_result [OF assms(1)] obtain ws ev where
    s2: "compact_stage2 py s = Inr (ws, ev)" and
    fin: "if oversize py ws \<and> ev \<noteq> []
            then \<exists>p. compacted_of py ws = Inr p \<and>
                   s' = dict_set (lit ''events_log_compacted'')
                          (JInt (p + (int (length ev) - int (min 25 (length ev)))))
                          (dict_set (lit ''events_log'') (JList (last_n 25 ev)) ws)
            else s' = ws" by blast
  have "map_of s' k = map_of ws k"
    using fin assms(2,3) by (auto simp: map_of_dict_set split: if_splits)
  moreover have "map_of ws k = map_of s k"
    using stage2_result [OF s2] assms(2-4) by (auto simp: map_of_dict_set split: if_splits)
  ultimately show ?thesis by simp
qed

subsection \<open>A compacted state is a fixed point of every stage\<close>

lemma clamp_key_id:
  "(\<And>v. dict_get c k = JStr v \<Longrightarrow> length v \<le> 300) \<Longrightarrow> clamp_key k c = c"
  by (auto simp: clamp_key_def split: json.splits)

lemma clamp_key_short:
  assumes "dict_get (clamp_key k c) k = JStr v"
  shows "length v \<le> 300"
  using assms by (auto simp: dict_get_clamp_key split: json.splits if_splits)

lemma clamp_key_short_other:
  assumes "\<And>v. dict_get c k = JStr v \<Longrightarrow> length v \<le> 300"
      and "dict_get (clamp_key k' c) k = JStr v"
  shows "length v \<le> 300"
proof (cases "k = k'")
  case True
  then show ?thesis using assms(2) clamp_key_short by blast
next
  case False
  then show ?thesis using assms by (simp add: dict_get_clamp_key)
qed

lemma clamp_twice:
  "clamp_key (lit ''news'') (clamp_key (lit ''weather'')
     (clamp_key (lit ''news'') (clamp_key (lit ''weather'') ctx))) =
   clamp_key (lit ''news'') (clamp_key (lit ''weather'') ctx)"
proof -
  let ?cc = "clamp_key (lit ''news'') (clamp_key (lit ''weather'') ctx)"
  have w: "length v \<le> 300" if "dict_get ?cc (lit ''weather'') = JStr v" for v
    using clamp_key_short_other [of "clamp_key (lit ''weather'') ctx" "lit ''weather''" "lit ''news''" v]
      clamp_key_short [of "lit ''weather''" ctx] that by blast
  have n: "length v \<le> 300" if "dict_get ?cc (lit ''news'') = JStr v" for v
    using clamp_key_short that by blast
  have "clamp_key (lit ''weather'') ?cc = ?cc" using w by (rule clamp_key_id)
  moreover have "clamp_key (lit ''news'') ?cc = ?cc" using n by (rule clamp_key_id)
  ultimately show ?thesis by simp
qed

lemma clamp_context_fixed:
  assumes "map_of ws (skey ''context'') =
             Some (JObj (clamp_key (lit ''news'') (clamp_key (lit ''weather'') ctx)))"
  shows "clamp_context ws = Inr ws"
proof -
  let ?cc = "clamp_key (lit ''news'') (clamp_key (lit ''weather'') ctx)"
  have "dict_get ws (lit ''context'') = JObj ?cc" using assms by (simp add: dict_get_def)
  then have "clamp_context ws =
     Inr (dict_set (lit ''context'') (JObj (clamp_key (lit ''news'') (clamp_key (lit ''weather'') ?cc))) ws)"
    by (simp add: clamp_context_def py_or_obj)
  also have "\<dots> = Inr ws" using assms by (simp add: clamp_twice dict_set_triv)
  finally show ?thesis .
qed

lemma trim_events_fixed:
  "events_of ws = Inr ev \<Longrightarrow> length ev \<le> 200 \<Longrightarrow> trim_events py ws = Inr (ws, ev)"
  by (simp add: trim_events_def MAX_EVENTS_def)

lemma stage2_context:
  assumes "compact_stage2 py s = Inr (ws, ev)"
  shows "\<exists>ctx. map_of ws (skey ''context'') =
             Some (JObj (clamp_key (lit ''news'') (clamp_key (lit ''weather'') ctx)))"
  using stage2_result [OF assms] by (auto simp: map_of_dict_set split: if_splits)

lemma stage2_fixed:
  assumes "events_of ws = Inr ev" and "length ev \<le> 200"
      and "map_of ws (skey ''context'') =
             Some (JObj (clamp_key (lit ''news'') (clamp_key (lit ''weather'') ctx)))"
  shows "compact_stage2 py ws = Inr (ws, ev)"
  using trim_events_fixed [OF assms(1,2)] clamp_context_fixed [OF assms(3)]
  by (simp add: compact_stage2_def)

lemma compact_no_trim:
  assumes "compact_stage2 py ws = Inr (ws, ev)" and "\<not> (oversize py ws \<and> ev \<noteq> [])"
  shows "compact_world_state py ws = Inr ws"
proof (cases "dumps_len py (JObj ws)")
  case (Inl e)
  then show ?thesis using assms(1) by (simp add: compact_world_state_def del: dumps_len.simps)
next
  case (Inr sz)
  then have "aggressive_trim py ws ev sz = Inr ws"
    using assms(2) oversize_iff [OF Inr] by (auto simp: aggressive_trim_def MAX_JSON_BYTES_def)
  then show ?thesis using assms(1) Inr
    by (simp add: compact_world_state_def del: dumps_len.simps)
qed

lemma compact_trimmed_fixed:
  assumes "compact_stage2 py s' = Inr (s', k)" and "length k \<le> 25"
      and "map_of s' (skey ''events_log'') = Some (JList k)"
      and "map_of s' (skey ''events_log_compacted'') = Some (JInt q)"
  shows "compact_world_state py s' = Inr s'"
proof (cases "oversize py s' \<and> k \<noteq> []")
  case False
  then show ?thesis using compact_no_trim [OF assms(1)] by blast
next
  case True
  then obtain sz where sz: "dumps_len py (JObj s') = Inr sz" and big: "sz > 200000"
    by (auto simp: oversize_def MAX_JSON_BYTES_def split: sum.splits simp del: dumps_len.simps)
  have keep: "last_n 25 k = k" using assms(2) by (simp add: last_n_def)
  have u1: "dict_set (lit ''events_log'') (JList k) s' = s'"
    using assms(3) by (simp add: dict_set_triv)
  have cq: "compacted_of py s' = Inr q"
    using assms(4) by (simp add: compacted_of_def dict_get_def py_or_def)
  have "add_compacted py s' 0 = Inr s'"
    using cq assms(4) by (simp add: add_compacted_def dict_set_triv)
  then have "aggressive_trim py s' k sz = Inr s'"
    using True big keep u1 by (simp add: aggressive_trim_def MAX_JSON_BYTES_def Let_def)
  then show ?thesis using assms(1) sz
    by (simp add: compact_world_state_def del: dumps_len.simps)
qed

subsection \<open>When the compactor returns\<close>

text \<open>
  The compactor raises only through \<open>list()\<close>, \<open>int()\<close> and \<open>dict()\<close>.  It returns
  on every state whose log can be listed, whose counter can be read and whose context can
  be made a dict; a state with the shapes of the schema (a list, an integer, a mapping, or
  the field missing) is of that kind.
\<close>

lemma trim_events_returns:
  assumes "events_of s = Inr es" and "compacted_of py s = Inr c"
  shows "\<exists>ws ev. trim_events py s = Inr (ws, ev) \<and>
           dict_get ws (lit ''context'') = dict_get s (lit ''context'') \<and>
           (\<exists>c'. compacted_of py ws = Inr c')"
proof (cases "length es > 200")
  case True
  have "compacted_of py (dict_set (lit ''events_log'') (JList (last_n 100 es)) s) = Inr c"
    using assms(2) by simp
  then show ?thesis using True assms(1)
    by (simp add: trim_events_def add_compacted_def MAX_EVENTS_def KEEP_EVENTS_def Let_def)
next
  case False
  then show ?thesis using assms by (simp add: trim_events_def MAX_EVENTS_def)
qed

lemma stage2_returns:
  assumes "events_of s = Inr es" and "compacted_of py s = Inr c"
      and "py_dict (py_or (dict_get s (lit ''context'')) (JObj [])) = Inr ctx"
  shows "\<exists>ws ev c'. compact_stage2 py s = Inr (ws, ev) \<and> compacted_of py ws = Inr c'"
proof -
  from trim_events_returns [OF assms(1,2)] obtain ws1 ev c' where
    t: "trim_events py s = Inr (ws1, ev)" and
    g: "dict_get ws1 (lit ''context'') = dict_get s (lit ''context'')" and
    c: "compacted_of py ws1 = Inr c'" by blast
  let ?ws = "dict_set (lit ''context'')
               (JObj (clamp_key (lit ''news'') (clamp_key (lit ''weather'') ctx))) ws1"
  have "clamp_context ws1 = Inr ?ws" using g assms(3) by (simp add: clamp_context_def)
  then have "compact_stage2 py s = Inr (?ws, ev)" using t by (simp add: compact_stage2_def)
  moreover have "compacted_of py ?ws = Inr c'" using c by simp
  ultimately show ?thesis by blast
qed

lemma compact_returns:
  assumes "events_of s = Inr es" and "compacted_of py s = Inr c"
      and "py_dict (py_or (dict_get s (lit ''context'')) (JObj [])) = Inr ctx"
  shows "\<exists>s'. compact_world_state py s = Inr s'"
proof -
  from stage2_returns [OF assms] obtain ws ev c' where
    s2: "compact_stage2 py s = Inr (ws, ev)" and c: "compacted_of py ws = Inr c'" by blast
  show ?thesis
  proof (cases "dumps_len py (JObj ws)")
    case (Inl e)
    then show ?thesis using s2 by (simp add: compact_world_state_def del: dumps_len.simps)
  next
    case (Inr sz)
    have "compacted_of py (dict_set (lit ''events_log'') (JList (last_n 25 ev)) ws) = Inr c'"
      using c by simp
    then have "\<exists>s'. aggressive_trim py ws ev sz = Inr s'"
      by (simp add: aggressive_trim_def add_compacted_def Let_def)
    then show ?thesis using s2 Inr
      by (simp add: compact_world_state_def del: dumps_len.simps)
  qed
qed

lemma schema_returns:
  assumes "dict_get s (lit ''events_log'') = JNull \<or> (\<exists>es. dict_get s (lit ''events_log'') = JList es)"
      and "dict_get s (lit ''events_log_compacted'') = JNull \<or>
           (\<exists>i. dict_get s (lit ''events_log_compacted'') = JInt i)"
      and "dict_get s (lit ''context'') = JNull \<or> (\<exists>c. dict_get s (lit ''context'') = JObj c)"
  shows "\<exists>s'. compact_world_state py s = Inr s'"
proof -
  from assms(1) have "\<exists>es. events_of s = Inr es"
    by (auto simp: events_of_def py_or_def)
  moreover from assms(2) have "\<exists>c. compacted_of py s = Inr c"
    by (auto simp: compacted_of_def py_or_def)
  moreover from assms(3) have
    "\<exists>ctx. py_dict (py_or (dict_get s (lit ''context'')) (JObj [])) = Inr ctx"
    by (auto simp: py_or_def)
  ultimately show ?thesis using compact_returns by blast
qed

lemma save_returns:
  "configured sb \<Longrightarrow> compact_world_state py s = Inr s' \<Longrightarrow> accepts sb s' \<Longrightarrow>
   save_world_state py now s sb = Inr (now, sb\<lparr>row := Some (s', now)\<rparr>)"
  by (simp add: save_world_state_def)

subsection \<open>The normaliser on strings it leaves alone\<close>

lemma py_replace_absent:
  "old \<noteq> [] \<Longrightarrow> \<not> py_contains old t \<Longrightarrow> py_replace old new t = t"
proof (induction t)
  case Nil
  then show ?case by (subst py_replace.simps) simp
next
  case (Cons c cs)
  then have "py_replace old new cs = cs" by simp
  moreover have "take (length old) (c # cs) \<noteq> old" using Cons.prems(2) by simp
  ultimately show ?case using Cons.prems(1) by (subst py_replace.simps) simp
qed

lemma py_strip_clean:
  "t \<noteq> [] \<Longrightarrow> \<not> py_isspace (hd t) \<Longrightarrow> \<not> py_isspace (last t) \<Longrightarrow> py_strip t = t"
proof -
  assume ne: "t \<noteq> []" and h: "\<not> py_isspace (hd t)" and l: "\<not> py_isspace (last t)"
  from ne h have a: "dropWhile py_isspace t = t" by (cases t) simp_all
  from ne l have "dropWhile py_isspace (rev t) = rev t"
    by (cases "rev t") (simp_all add: last_rev hd_rev [symmetric])
  then show ?thesis using a by (simp add: py_strip_def py_rstrip_def)
qed

lemma normalize_clean:
  assumes "\<not> py_contains [10] s" "\<not> py_contains [13] s" "\<not> py_contains [8226] s"
      and "\<not> py_contains [45, 32] s" "\<not> py_contains [8211, 32] s" "\<not> py_contains [8212, 32] s"
      and "\<not> py_contains [32, 32] s"
      and "s \<noteq> []" "\<not> py_isspace (hd s)" "\<not> py_isspace (last s)" "length s \<le> 220"
  shows "normalize_summary (JStr s) 220 = s"
proof -
  have "collapse_spaces s = s" using assms(7) by (subst collapse_spaces.simps) simp
  moreover have "py_strip s = s" using assms(8-10) by (rule py_strip_clean)
  ultimately show ?thesis using assms(1-6,11)
    by (simp add: normalize_summary_def bullets_def py_replace_absent)
qed

lemma fixed_summaries_nonempty [simp]:
  "no_changes_summary \<noteq> []" "nothing_noteworthy_summary \<noteq> []" "parse_failure_summary \<noteq> []"
  by (simp_all add: no_changes_summary_def nothing_noteworthy_summary_def parse_failure_summary_def)


lemma norm_nothing:
  "normalize_summary (JStr nothing_noteworthy_summary) 220 = nothing_noteworthy_summary"
  by (rule normalize_clean) (simp_all add: nothing_noteworthy_summary_def lit_def py_isspace_def)

lemma norm_parse_failure:
  "normalize_summary (JStr parse_failure_summary) 220 = parse_failure_summary"
  by (rule normalize_clean) (simp_all add: parse_failure_summary_def lit_def py_isspace_def)

subsection \<open>The mediator and the tool, case by case\<close>

lemma validate_parsed_obj:
  "validate_parsed (JObj kvs) cws =
     Inr (case dict_get kvs (lit ''updated_world_state'') of JObj d \<Rightarrow> d | _ \<Rightarrow> cws,
          normalize_summary (spec_final_summary kvs) 220)"
  by (auto simp: validate_parsed_def spec_final_summary_def is_dict_def Let_def nonempty_str_def
           split: json.splits)

lemma validate_parsed_Inr:
  "validate_parsed v cws = Inr (st, summary) \<Longrightarrow> \<exists>kvs. v = JObj kvs"
  by (cases v) (simp_all add: validate_parsed_def)

lemma llm_transform_Some:
  "dumps_len py (user_payload intent cws) = Inr n \<Longrightarrow>
   llm_transform_world_state py (Some ask) intent cws =
     (case ask (user_payload intent cws) of
        Failed \<Rightarrow> Inl BackendError
      | NoChoices \<Rightarrow> Inl IndexError
      | Malformed \<Rightarrow> Inr (cws, parse_failure_summary)
      | NoContent \<Rightarrow> validate_parsed (JObj []) cws
      | Json parsed \<Rightarrow> validate_parsed parsed cws)"
  by (simp add: llm_transform_world_state_def Let_def del: dumps_len.simps)

lemma llm_transform_Inr:
  assumes "llm_transform_world_state py client intent cws = Inr (st, summary)"
  shows "\<exists>ask n. client = Some ask \<and> dumps_len py (user_payload intent cws) = Inr n"
  using assms
  by (auto simp: llm_transform_world_state_def Let_def split: option.splits sum.splits
           simp del: dumps_len.simps)

lemma payload_encodable:
  "dumps_pairs py intent = Inr a \<Longrightarrow> dumps_pairs py cws = Inr b \<Longrightarrow>
   \<exists>n. dumps_len py (user_payload intent cws) = Inr n"
  by (simp add: user_payload_def)

lemma map_of_setdefault:
  "map_of (setdefault k v d) (JStr k) =
     Some (case map_of d (JStr k) of None \<Rightarrow> v | Some x \<Rightarrow> x)"
  by (auto simp: setdefault_def map_add_def split: option.splits)

lemma save_world_state_Inr:
  "save_world_state py now s sb = Inr (t, sb') \<Longrightarrow>
   \<exists>st. configured sb \<and> compact_world_state py s = Inr st \<and> accepts sb st \<and> t = now \<and>
        sb' = sb\<lparr>row := Some (st, now)\<rparr>"
  by (auto simp: save_world_state_def split: if_splits sum.splits)

lemma create_kingdom_Inr:
  "create_kingdom py client now name theme sb = Inr ((summary, t), sb') \<Longrightarrow>
   \<exists>u. llm_transform_world_state py client (init_intent name theme) [] = Inr (u, summary) \<and>
       save_world_state py now (setdefault (lit ''kingdom_name'') (JStr name) u) sb =
         Inr (t, sb')"
  by (auto simp: create_kingdom_def split: sum.splits)

text \<open>
  What \<open>create_kingdom\<close> does whenever it returns: the mediator was run on the \<open>init\<close>
  intent and the empty state, the store holds the compacted result with the clock reading,
  and the outcome is the same whatever row the store held before.  The stored state has a
  \<open>kingdom_name\<close>: the one of the mediated state when it has one, and the requested name
  otherwise.
\<close>

lemma create_kingdom_outcome:
  assumes "create_kingdom py client now name theme sb = Inr ((summary, t), sb')"
  shows "\<exists>u st. llm_transform_world_state py client (init_intent name theme) [] = Inr (u, summary) \<and>
           compact_world_state py (setdefault (lit ''kingdom_name'') (JStr name) u) = Inr st \<and>
           t = now \<and> sb' = sb\<lparr>row := Some (st, now)\<rparr> \<and>
           map_of st (skey ''kingdom_name'') =
             Some (case map_of u (skey ''kingdom_name'') of None \<Rightarrow> JStr name | Some v \<Rightarrow> v) \<and>
           (\<forall>r. create_kingdom py client now name theme (sb\<lparr>row := r\<rparr>) =
                  Inr ((summary, t), sb'))"
proof -
  from create_kingdom_Inr [OF assms] obtain u where
    l: "llm_transform_world_state py client (init_intent name theme) [] = Inr (u, summary)" and
    s: "save_world_state py now (setdefault (lit ''kingdom_name'') (JStr name) u) sb =
          Inr (t, sb')" by blast
  from save_world_state_Inr [OF s] obtain st where
    cf: "configured sb" and
    c: "compact_world_state py (setdefault (lit ''kingdom_name'') (JStr name) u) = Inr st" and
    a: "accepts sb st" and t: "t = now" and sb': "sb' = sb\<lparr>row := Some (st, now)\<rparr>" by blast
  have "map_of st (skey ''kingdom_name'') =
          map_of (setdefault (lit ''kingdom_name'') (JStr name) u) (skey ''kingdom_name'')"
    by (rule compact_other_keys [OF c]) simp_all
  then have k: "map_of st (skey ''kingdom_name'') =
             Some (case map_of u (skey ''kingdom_name'') of None \<Rightarrow> JStr name | Some v \<Rightarrow> v)"
    by (simp add: map_of_setdefault)
  have "create_kingdom py client now name theme (sb\<lparr>row := r\<rparr>) = Inr ((summary, t), sb')" for r
    using l c cf a t sb' by (simp add: create_kingdom_def save_world_state_def)
  with l c t sb' k show ?thesis by blast
qed

subsection \<open>Sample runs\<close>

text \<open>
  Inputs evaluated step by step under the sample interpreter: 150 events (between the two
  thresholds), 205 events, 205 events beside a backstory of 200000 characters, which alone
  puts the serialised state over the size limit, a state with nothing but a day, and a
  state of 201 events whose counter is the text \<open>7\<close> and whose context holds a weather of
  500 characters (300 times \<open>a\<close>, then 200 times \<open>b\<close>) beside a location of two
  floats, and a state whose context is a list of pairs.
\<close>

lemmas compact_eval =
  compact_world_state_def compact_stage2_def trim_events_def clamp_context_def clamp_key_def
  add_compacted_def aggressive_trim_def events_of_def compacted_of_def py_or_def dict_get_def
  dict_set_def last_n_def MAX_JSON_BYTES_def MAX_EVENTS_def KEEP_EVENTS_def str_len_def
  esc_len_def int_len_def sample_py_def ascii_int_def int_space_def py_isspace_def

lemma dumps_items_replicate:
  "dumps_len py x = Inr k \<Longrightarrow>
   dumps_items py (replicate n x) = Inr (n * k + 2 * (n - 1))"
proof (induction n)
  case 0
  then show ?case by simp
next
  case (Suc n)
  then show ?case by (cases n) (simp_all del: dumps_len.simps)
qed

lemma compact_150:
  "compact_world_state sample_py [(skey ''events_log'', JList (replicate 150 JNull))] =
   Inr [(skey ''events_log'', JList (replicate 150 JNull)), (skey ''context'', JObj [])]"
  by (simp add: compact_eval dumps_items_replicate lit_def)

lemma compact_205:
  "compact_world_state sample_py [(skey ''events_log'', JList (map JInt [1..205]))] =
   Inr [(skey ''events_log'', JList (map JInt [106..205])),
        (skey ''events_log_compacted'', JInt 105), (skey ''context'', JObj [])]"
  by (simp add: compact_eval Let_def digits.simps lit_def upto.simps [of 1] sum_list_replicate)

lemma compact_205_big:
  "compact_world_state sample_py [(skey ''events_log'', JList (map JInt [1..205])),
                        (skey ''backstory'', JStr (replicate 200000 97))] =
   Inr [(skey ''events_log'', JList (map JInt [181..205])),
        (skey ''backstory'', JStr (replicate 200000 97)),
        (skey ''events_log_compacted'', JInt 180), (skey ''context'', JObj [])]"
  by (simp add: compact_eval Let_def digits.simps lit_def upto.simps [of 1] sum_list_replicate)

lemma events_205:
  "events_of [(skey ''events_log'', JList (map JInt [1..205]))] = Inr (map JInt [1..205])"
  by (simp add: events_of_def dict_get_def py_or_def upto.simps [of 1])

lemma stage2_205:
  "compact_stage2 sample_py [(skey ''events_log'', JList (map JInt [1..205]))] =
   Inr ([(skey ''events_log'', JList (map JInt [106..205])),
         (skey ''events_log_compacted'', JInt 105), (skey ''context'', JObj [])],
        map JInt [106..205])"
  by (simp add: compact_eval Let_def lit_def upto.simps [of 1])

lemma small_205:
  "\<not> oversize sample_py [(skey ''events_log'', JList (map JInt [106..205])),
         (skey ''events_log_compacted'', JInt 105), (skey ''context'', JObj [])]"
  by (simp add: oversize_def compact_eval Let_def digits.simps lit_def)



lemma compact_day:
  "compact_world_state sample_py [(skey ''day'', JInt 3)] =
   Inr [(skey ''day'', JInt 3), (skey ''context'', JObj [])]"
  by (simp add: compact_eval Let_def digits.simps lit_def)

lemma compact_text_counter:
  "compact_world_state sample_py
     [(skey ''events_log'', JList (replicate 201 JNull)),
      (skey ''events_log_compacted'', JStr (lit ''7'')),
      (skey ''context'',
         JObj [(skey ''weather'', JStr (replicate 300 97 @ replicate 200 98)),
               (skey ''location'',
                  JObj [(skey ''lat'', JFloat (Finite False 3 (- 1))),
                        (skey ''lon'', JFloat (Finite False 5 (- 1)))])])] =
   Inr [(skey ''events_log'', JList (replicate 100 JNull)),
        (skey ''events_log_compacted'', JInt 108),
        (skey ''context'',
           JObj [(skey ''weather'', JStr (replicate 300 97)),
                 (skey ''location'',
                    JObj [(skey ''lat'', JFloat (Finite False 3 (- 1))),
                          (skey ''lon'', JFloat (Finite False 5 (- 1)))])])]"
  by (simp add: compact_eval Let_def digits.simps dumps_items_replicate lit_def
        sum_list_replicate)

lemma compact_pairs_context:
  "compact_world_state sample_py
     [(skey ''context'', JList [JList [JStr (lit ''weather''), JStr (replicate 500 97)],
                                JList [JInt 1, JStr (lit ''a'')],
                                JList [JBool True, JStr (lit ''b'')]])] =
   Inr [(skey ''context'', JObj [(skey ''weather'', JStr (replicate 300 97)),
                                 (JInt 1, JStr (lit ''b''))])]"
  by (simp add: compact_eval py_key_eq_def Let_def digits.simps lit_def sum_list_replicate)

lemmas norm_eval =
  normalize_summary_def bullets_def py_replace.simps collapse_spaces.simps py_strip_def
  py_rstrip_def py_isspace_def slice_to_def Let_def lit_def

lemma norm_hi: "normalize_summary (JStr (lit ''Hi'')) 220 = lit ''Hi''"
  by (rule normalize_clean) (simp_all add: lit_def py_isspace_def)

lemma norm_dashes: "normalize_summary (JStr (lit ''--  x'')) 220 = lit ''- x''"
  by (simp add: norm_eval)

lemma norm_dash: "normalize_summary (JStr (lit ''- x'')) 220 = lit ''x''"
  by (simp add: norm_eval)

lemma init_payload_encodable:
  "\<exists>n. dumps_len sample_py (user_payload (init_intent (lit ''Avalon'') None) []) = Inr n"
  by (rule payload_encodable) (simp_all add: init_intent_def)

lemma create_kingdom_nameless:
  "create_kingdom sample_py (Some nameless_backend) [50] (lit ''Avalon'') None
     (open_store\<lparr>row := Some ([(skey ''kingdom_name'', JStr (lit ''Old''))], [49])\<rparr>) =
     Inr ((lit ''Hi'', [50]),
          open_store\<lparr>row := Some ([(skey ''day'', JInt 1),
                                   (skey ''kingdom_name'', JStr (lit ''Avalon'')),
                                   (skey ''context'', JObj [])], [50])\<rparr>)"
proof -
  from init_payload_encodable have l:
    "llm_transform_world_state sample_py (Some nameless_backend)
       (init_intent (lit ''Avalon'') None) [] =
       Inr ([(skey ''day'', JInt 1)], lit ''Hi'')"
    by (auto simp: llm_transform_Some nameless_backend_def validate_parsed_obj spec_final_summary_def
          nonempty_str_def dict_get_def norm_hi simp del: dumps_len.simps)
  have c: "compact_world_state sample_py
         [(skey ''day'', JInt 1), (skey ''kingdom_name'', JStr (lit ''Avalon''))] =
       Inr [(skey ''day'', JInt 1), (skey ''kingdom_name'', JStr (lit ''Avalon'')),
            (skey ''context'', JObj [])]"
    by (simp add: compact_eval Let_def digits.simps lit_def)
  show ?thesis using l c
    by (simp add: create_kingdom_def save_world_state_def setdefault_def open_store_def)
qed

section \<open>The claims\<close>




text \<open>
  C2.  Idempotence.  A state that \<open>compact_world_state\<close> returns is returned unchanged
  when it is compacted again: \<open>compact(compact(s)) = compact(s)\<close> for every state on which
  the compactor returns.
\<close>

theorem compact_idempotent:
  assumes "compact_world_state py s = Inr s'"
  shows "compact_world_state py s' = Inr s'"
proof -
  from compact_result [OF assms] obtain ws ev where
    s2: "compact_stage2 py s = Inr (ws, ev)" and
    fin: "if oversize py ws \<and> ev \<noteq> []
            then \<exists>p. compacted_of py ws = Inr p \<and>
                   s' = dict_set (lit ''events_log_compacted'')
                          (JInt (p + (int (length ev) - int (min 25 (length ev)))))
                          (dict_set (lit ''events_log'') (JList (last_n 25 ev)) ws)
            else s' = ws" by blast
  from stage2_context [OF s2] obtain ctx where
    cx: "map_of ws (skey ''context'') =
             Some (JObj (clamp_key (lit ''news'') (clamp_key (lit ''weather'') ctx)))" by blast
  have evs: "events_of ws = Inr ev" "length ev \<le> 200" using stage2_events [OF s2] by simp_all
  show ?thesis
  proof (cases "oversize py ws \<and> ev \<noteq> []")
    case False
    then have "s' = ws" using fin by simp
    moreover have "compact_stage2 py ws = Inr (ws, ev)" using stage2_fixed [OF evs cx] .
    ultimately show ?thesis using compact_no_trim False by blast
  next
    case True
    then obtain p where
      s': "s' = dict_set (lit ''events_log_compacted'')
                          (JInt (p + (int (length ev) - int (min 25 (length ev)))))
                          (dict_set (lit ''events_log'') (JList (last_n 25 ev)) ws)"
      using fin by auto
    have e: "events_of s' = Inr (last_n 25 ev)" by (simp add: s')
    have l: "length (last_n 25 ev) \<le> 25" by simp
    then have l2: "length (last_n 25 ev) \<le> 200" by simp
    have cx': "map_of s' (skey ''context'') =
             Some (JObj (clamp_key (lit ''news'') (clamp_key (lit ''weather'') ctx)))"
      using cx by (simp add: s' map_of_dict_set)
    have st: "compact_stage2 py s' = Inr (s', last_n 25 ev)" using stage2_fixed [OF e l2 cx'] .
    have m1: "map_of s' (skey ''events_log'') = Some (JList (last_n 25 ev))"
      by (simp add: s' map_of_dict_set)
    have m2: "map_of s' (skey ''events_log_compacted'') =
                Some (JInt (p + (int (length ev) - int (min 25 (length ev)))))"
      by (simp add: s' map_of_dict_set)
    show ?thesis using compact_trimmed_fixed [OF st l m1 m2] .
  qed
qed

text \<open>The oversized sample, compacted once and twice.\<close>

theorem compact_idempotent_witness:
  "compact_world_state sample_py [(skey ''events_log'', JList (map JInt [1..205])),
                        (skey ''backstory'', JStr (replicate 200000 97))] =
     Inr [(skey ''events_log'', JList (map JInt [181..205])),
          (skey ''backstory'', JStr (replicate 200000 97)),
          (skey ''events_log_compacted'', JInt 180), (skey ''context'', JObj [])] \<and>
   compact_world_state sample_py [(skey ''events_log'', JList (map JInt [181..205])),
          (skey ''backstory'', JStr (replicate 200000 97)),
          (skey ''events_log_compacted'', JInt 180), (skey ''context'', JObj [])] =
     Inr [(skey ''events_log'', JList (map JInt [181..205])),
          (skey ''backstory'', JStr (replicate 200000 97)),
          (skey ''events_log_compacted'', JInt 180), (skey ''context'', JObj [])]"
  using compact_idempotent [OF compact_205_big] compact_205_big by blast






text \<open>
  C5.  The trim of a long log.  For a state with more than 200 events on which the
  compactor returns, the result holds the most recent 100 events and the counter
  \<open>events_log_compacted\<close> grows by the number of events dropped, \<open>length es - 100\<close>,
  provided the state after the trim and the clamp is not oversized; when it is, the result
  holds the most recent 25 events and the counter grows by \<open>length es - 25\<close>.  The state
  that \<open>save_world_state\<close> stores is this result.
\<close>

theorem compact_trims_long_log:
  assumes "events_of s = Inr es" and "length es > 200" and "compact_world_state py s = Inr s'"
  shows "\<exists>c ws ev. compacted_of py s = Inr c \<and> compact_stage2 py s = Inr (ws, ev) \<and>
           (if oversize py ws
            then dict_get s' (lit ''events_log'') = JList (last_n 25 es) \<and>
                 dict_get s' (lit ''events_log_compacted'') = JInt (c + (int (length es) - 25))
            else dict_get s' (lit ''events_log'') = JList (last_n 100 es) \<and>
                 dict_get s' (lit ''events_log_compacted'') = JInt (c + (int (length es) - 100))) \<and>
           (\<forall>now sb t sb'. save_world_state py now s sb = Inr (t, sb') \<longrightarrow>
              row sb' = Some (s', t))"
proof -
  from compact_log_and_counter [OF assms(3)] assms(1,2) obtain ws ev c where
    s2: "compact_stage2 py s = Inr (ws, ev)" and
    e: "dict_get s' (lit ''events_log'') = JList (if oversize py ws then last_n 25 ev else ev)" and
    c: "compacted_of py s = Inr c" and
    k: "dict_get s' (lit ''events_log_compacted'') =
          JInt (c + (int (length es) - int (length (if oversize py ws then last_n 25 ev else ev))))"
    by auto
  from stage2_result [OF s2] assms(1,2) have ev: "ev = last_n 100 es" by auto
  have l25: "last_n 25 ev = last_n 25 es" by (simp add: ev last_n_last_n)
  have "if oversize py ws
            then dict_get s' (lit ''events_log'') = JList (last_n 25 es) \<and>
                 dict_get s' (lit ''events_log_compacted'') = JInt (c + (int (length es) - 25))
            else dict_get s' (lit ''events_log'') = JList (last_n 100 es) \<and>
                 dict_get s' (lit ''events_log_compacted'') = JInt (c + (int (length es) - 100))"
    using e k l25 ev assms(2) by (cases "oversize py ws") simp_all
  moreover have "\<forall>now sb t sb'. save_world_state py now s sb = Inr (t, sb') \<longrightarrow>
              row sb' = Some (s', t)"
    using save_stores_compacted [OF assms(3)] by fastforce
  ultimately show ?thesis using c s2 by blast
qed

text \<open>
  With 205 events beside a backstory of 200000 characters the stored log has 25 entries,
  not the most recent 100, and the counter has grown by 180, not by 105.
\<close>

theorem compact_trims_long_log_counterexample:
  "events_of [(skey ''events_log'', JList (map JInt [1..205])),
              (skey ''backstory'', JStr (replicate 200000 97))] = Inr (map JInt [1..205]) \<and>
   length (map JInt [1..205]) = 205 \<and>
   save_world_state sample_py [50] [(skey ''events_log'', JList (map JInt [1..205])),
                          (skey ''backstory'', JStr (replicate 200000 97))]
      open_store =
     Inr ([50], open_store\<lparr>row := Some
       ([(skey ''events_log'', JList (map JInt [181..205])),
         (skey ''backstory'', JStr (replicate 200000 97)),
         (skey ''events_log_compacted'', JInt 180), (skey ''context'', JObj [])], [50])\<rparr>) \<and>
   length (map JInt [181..205]) = 25 \<and>
   map JInt [181..205] \<noteq> last_n 100 (map JInt [1..205]) \<and>
   (180 :: int) \<noteq> 0 + 105"
proof -
  have "length (last_n 100 (map JInt [1..205])) \<noteq> length (map JInt [181..205])"
    by simp
  then have "map JInt [181..205] \<noteq> last_n 100 (map JInt [1..205])" by metis
  moreover have "events_of [(skey ''events_log'', JList (map JInt [1..205])),
              (skey ''backstory'', JStr (replicate 200000 97))] = Inr (map JInt [1..205])"
    by (simp add: events_of_def dict_get_def py_or_def upto.simps [of 1])
  ultimately show ?thesis
    by (simp add: save_world_state_def open_store_def compact_205_big)
qed

text \<open>
  With 205 events alone the stored log is the most recent 100 and the counter has grown
  by 105.
\<close>

theorem compact_trims_long_log_witness:
  "save_world_state sample_py [50] [(skey ''events_log'', JList (map JInt [1..205]))]
      open_store =
     Inr ([50], open_store\<lparr>row := Some
       ([(skey ''events_log'', JList (map JInt [106..205])),
         (skey ''events_log_compacted'', JInt 105), (skey ''context'', JObj [])], [50])\<rparr>) \<and>
   dict_get [(skey ''events_log'', JList (map JInt [106..205])),
         (skey ''events_log_compacted'', JInt 105), (skey ''context'', JObj [])]
      (lit ''events_log'') = JList (last_n 100 (map JInt [1..205])) \<and>
   dict_get [(skey ''events_log'', JList (map JInt [106..205])),
         (skey ''events_log_compacted'', JInt 105), (skey ''context'', JObj [])]
      (lit ''events_log_compacted'') = JInt (0 + (int (length (map JInt [1..205])) - 100))"
proof -
  let ?s = "[(skey ''events_log'', JList (map JInt [1..205]))]"
  let ?r = "[(skey ''events_log'', JList (map JInt [106..205])),
         (skey ''events_log_compacted'', JInt 105), (skey ''context'', JObj [])]"
  have l: "length (map JInt [1..205]) > 200" by simp
  from compact_trims_long_log [OF events_205 l compact_205] obtain c ws ev where
    c: "compacted_of sample_py ?s = Inr c" and s2: "compact_stage2 sample_py ?s = Inr (ws, ev)" and
    k: "if oversize sample_py ws
        then dict_get ?r (lit ''events_log'') = JList (last_n 25 (map JInt [1..205])) \<and>
             dict_get ?r (lit ''events_log_compacted'') =
               JInt (c + (int (length (map JInt [1..205])) - 25))
        else dict_get ?r (lit ''events_log'') = JList (last_n 100 (map JInt [1..205])) \<and>
             dict_get ?r (lit ''events_log_compacted'') =
               JInt (c + (int (length (map JInt [1..205])) - 100))"
    by blast
  have "compacted_of sample_py ?s = Inr 0" by (simp add: compacted_of_def dict_get_def py_or_def)
  with c have c0: "c = 0" by simp
  from s2 have "ws = ?r" by (metis stage2_205 Inr_inject prod.inject)
  with small_205 have "\<not> oversize sample_py ws" by simp
  with k c0 have
    "dict_get ?r (lit ''events_log'') = JList (last_n 100 (map JInt [1..205])) \<and>
     dict_get ?r (lit ''events_log_compacted'') =
       JInt (0 + (int (length (map JInt [1..205])) - 100))" by simp
  moreover have "save_world_state sample_py [50] ?s open_store =
     Inr ([50], open_store\<lparr>row := Some (?r, [50])\<rparr>)"
    by (simp add: save_world_state_def open_store_def compact_205)
  ultimately show ?thesis by blast
qed



text \<open>
  C7.  When \<open>context.weather\<close> or \<open>context.news\<close> of a state is a string of more than
  300 characters, every state that \<open>compact_world_state\<close> returns holds exactly its first
  300 characters under that key, with nothing appended, and the state that
  \<open>save_world_state\<close> stores is that state.  The compactor does return when the log can
  be listed and the counter can be read, and the save then stores its result whenever the
  store is configured and accepts the document.
\<close>

theorem compact_clamps_context:
  assumes "dict_get s (lit ''context'') = JObj ctx"
      and "key = lit ''weather'' \<or> key = lit ''news''"
      and "dict_get ctx key = JStr w"
      and "length w > 300"
  shows "(\<forall>s'. compact_world_state py s = Inr s' \<longrightarrow>
            (\<exists>ctx'. dict_get s' (lit ''context'') = JObj ctx' \<and>
                    dict_get ctx' key = JStr (take 300 w))) \<and>
         (\<forall>now sb t sb'. save_world_state py now s sb = Inr (t, sb') \<longrightarrow>
            (\<exists>st ctx'. row sb' = Some (st, t) \<and> dict_get st (lit ''context'') = JObj ctx' \<and>
                    dict_get ctx' key = JStr (take 300 w))) \<and>
         (\<forall>es c. events_of s = Inr es \<and> compacted_of py s = Inr c \<longrightarrow>
            (\<exists>s'. compact_world_state py s = Inr s' \<and>
               (\<forall>now sb. configured sb \<and> accepts sb s' \<longrightarrow>
                  save_world_state py now s sb = Inr (now, sb\<lparr>row := Some (s', now)\<rparr>))))"
proof -
  have main: "\<exists>ctx'. dict_get s' (lit ''context'') = JObj ctx' \<and>
                    dict_get ctx' key = JStr (take 300 w)"
    if "compact_world_state py s = Inr s'" for s'
  proof -
    from compact_context [OF that] assms(1) have
      "map_of s' (skey ''context'') =
         Some (JObj (clamp_key (lit ''news'') (clamp_key (lit ''weather'') ctx)))"
      by (simp add: py_or_obj)
    then have "dict_get s' (lit ''context'') =
         JObj (clamp_key (lit ''news'') (clamp_key (lit ''weather'') ctx))"
      by (simp add: dict_get_def)
    moreover have "dict_get (clamp_key (lit ''news'') (clamp_key (lit ''weather'') ctx)) key =
         JStr (take 300 w)"
      using assms(2-4) by (auto simp: dict_get_clamp_key)
    ultimately show ?thesis by blast
  qed
  have stored: "\<exists>st ctx'. row sb' = Some (st, t) \<and> dict_get st (lit ''context'') = JObj ctx' \<and>
                    dict_get ctx' key = JStr (take 300 w)"
    if "save_world_state py now s sb = Inr (t, sb')" for now sb t sb'
  proof -
    from that obtain st where "compact_world_state py s = Inr st" and "row sb' = Some (st, t)"
      by (auto simp: save_world_state_def split: if_splits sum.splits)
    then show ?thesis using main by blast
  qed
  have returns: "\<exists>s'. compact_world_state py s = Inr s' \<and>
               (\<forall>now sb. configured sb \<and> accepts sb s' \<longrightarrow>
                  save_world_state py now s sb = Inr (now, sb\<lparr>row := Some (s', now)\<rparr>))"
    if "events_of s = Inr es" and "compacted_of py s = Inr c" for es c
  proof -
    have "py_dict (py_or (dict_get s (lit ''context'')) (JObj [])) = Inr ctx"
      using assms(1) by (simp add: py_or_obj)
    from compact_returns [OF that this] obtain s' where
      "compact_world_state py s = Inr s'" by blast
    then show ?thesis using save_returns by blast
  qed
  from main stored returns show ?thesis by blast
qed

text \<open>
  A state of 201 events whose counter is the text \<open>7\<close>, with a weather of 300 times
  \<open>a\<close> followed by 200 times \<open>b\<close> beside a location of two floats: the stored weather
  is the 300 times \<open>a\<close> (and the counter is 108).
\<close>

theorem compact_clamps_context_witness:
  "events_of
     [(skey ''events_log'', JList (replicate 201 JNull)),
      (skey ''events_log_compacted'', JStr (lit ''7'')),
      (skey ''context'',
         JObj [(skey ''weather'', JStr (replicate 300 97 @ replicate 200 98)),
               (skey ''location'',
                  JObj [(skey ''lat'', JFloat (Finite False 3 (- 1))),
                        (skey ''lon'', JFloat (Finite False 5 (- 1)))])])] =
     Inr (replicate 201 JNull) \<and>
   compacted_of sample_py
     [(skey ''events_log'', JList (replicate 201 JNull)),
      (skey ''events_log_compacted'', JStr (lit ''7'')),
      (skey ''context'',
         JObj [(skey ''weather'', JStr (replicate 300 97 @ replicate 200 98)),
               (skey ''location'',
                  JObj [(skey ''lat'', JFloat (Finite False 3 (- 1))),
                        (skey ''lon'', JFloat (Finite False 5 (- 1)))])])] = Inr 7 \<and>
   save_world_state sample_py [50]
     [(skey ''events_log'', JList (replicate 201 JNull)),
      (skey ''events_log_compacted'', JStr (lit ''7'')),
      (skey ''context'',
         JObj [(skey ''weather'', JStr (replicate 300 97 @ replicate 200 98)),
               (skey ''location'',
                  JObj [(skey ''lat'', JFloat (Finite False 3 (- 1))),
                        (skey ''lon'', JFloat (Finite False 5 (- 1)))])])]
     open_store =
   Inr ([50], open_store\<lparr>row := Some ([(skey ''events_log'', JList (replicate 100 JNull)),
                       (skey ''events_log_compacted'', JInt 108),
                       (skey ''context'',
                          JObj [(skey ''weather'', JStr (replicate 300 97)),
                                (skey ''location'',
                                   JObj [(skey ''lat'', JFloat (Finite False 3 (- 1))),
                                         (skey ''lon'', JFloat (Finite False 5 (- 1)))])])],
                      [50])\<rparr>) \<and>
   (\<exists>ctx'. dict_get [(skey ''events_log'', JList (replicate 100 JNull)),
                     (skey ''events_log_compacted'', JInt 108),
                     (skey ''context'',
                        JObj [(skey ''weather'', JStr (replicate 300 97)),
                              (skey ''location'',
                                 JObj [(skey ''lat'', JFloat (Finite False 3 (- 1))),
                                       (skey ''lon'', JFloat (Finite False 5 (- 1)))])])]
             (lit ''context'') = JObj ctx' \<and>
           dict_get ctx' (lit ''weather'') = JStr (take 300 (replicate 300 97 @ replicate 200 98)))"
proof -
  let ?c = "[(skey ''weather'', JStr (replicate 300 97 @ replicate 200 98)),
             (skey ''location'',
                JObj [(skey ''lat'', JFloat (Finite False 3 (- 1))),
                      (skey ''lon'', JFloat (Finite False 5 (- 1)))])]"
  let ?s = "[(skey ''events_log'', JList (replicate 201 JNull)),
             (skey ''events_log_compacted'', JStr (lit ''7'')),
             (skey ''context'', JObj ?c)]"
  let ?r = "[(skey ''events_log'', JList (replicate 100 JNull)),
             (skey ''events_log_compacted'', JInt 108),
             (skey ''context'',
                JObj [(skey ''weather'', JStr (replicate 300 97)),
                      (skey ''location'',
                         JObj [(skey ''lat'', JFloat (Finite False 3 (- 1))),
                               (skey ''lon'', JFloat (Finite False 5 (- 1)))])])]"
  have h1: "dict_get ?s (lit ''context'') = JObj ?c" by (simp add: dict_get_def)
  have h3: "dict_get ?c (lit ''weather'') = JStr (replicate 300 97 @ replicate 200 98)" by (simp add: dict_get_def)
  have e: "events_of ?s = Inr (replicate 201 JNull)"
    by (simp add: events_of_def dict_get_def py_or_def)
  have c: "compacted_of sample_py ?s = Inr 7"
    by (simp add: compacted_of_def dict_get_def py_or_def sample_py_def ascii_int_def int_space_def
          py_isspace_def lit_def)
  have sv: "save_world_state sample_py [50] ?s
              open_store =
            Inr ([50], open_store\<lparr>row := Some (?r, [50])\<rparr>)"
    by (simp add: save_world_state_def open_store_def compact_text_counter)
  from compact_clamps_context [where py = sample_py, OF h1 _ h3] compact_text_counter
  have "\<exists>ctx'. dict_get ?r (lit ''context'') = JObj ctx' \<and>
           dict_get ctx' (lit ''weather'') = JStr (take 300 (replicate 300 97 @ replicate 200 98))"
    by simp
  with e c sv show ?thesis by blast
qed

text \<open>
  C8.  Whenever the mediator returns, its summary is the normaliser (with \<open>max_len\<close>
  220) applied to the summary that the validation settles on.  For the reply that cannot
  be parsed the code returns the fixed message as it is, which is what the normaliser
  returns on it.
\<close>

theorem mediate_normalizes:
  assumes "llm_transform_world_state py client intent cws = Inr (st, summary)"
  shows "\<exists>ask. client = Some ask \<and>
           summary = normalize_summary (spec_chosen_summary (ask (user_payload intent cws))) 220"
proof -
  from llm_transform_Inr [OF assms] obtain ask n where
    c: "client = Some ask" and n: "dumps_len py (user_payload intent cws) = Inr n" by blast
  have r: "llm_transform_world_state py (Some ask) intent cws = Inr (st, summary)"
    using assms c by simp
  have "summary = normalize_summary (spec_chosen_summary (ask (user_payload intent cws))) 220"
  proof (cases "ask (user_payload intent cws)")
    case Failed
    then show ?thesis using r n by (simp add: llm_transform_Some del: dumps_len.simps)
  next
    case NoChoices
    then show ?thesis using r n by (simp add: llm_transform_Some del: dumps_len.simps)
  next
    case NoContent
    then show ?thesis using r n
      by (simp add: llm_transform_Some validate_parsed_obj spec_chosen_summary_def
            del: dumps_len.simps)
  next
    case Malformed
    then show ?thesis using r n
      by (simp add: llm_transform_Some spec_chosen_summary_def norm_parse_failure
            del: dumps_len.simps)
  next
    case (Json v)
    then have "validate_parsed v cws = Inr (st, summary)"
      using r n by (simp add: llm_transform_Some del: dumps_len.simps)
    then show ?thesis using Json validate_parsed_Inr [of v cws st summary]
      by (auto simp: validate_parsed_obj spec_chosen_summary_def)
  qed
  with c show ?thesis by blast
qed

text \<open>
  A returned summary need not be its own normalisation.  The summary \<open>--  x\<close> loses one
  \<open>- \<close> and comes back as \<open>- x\<close>, from which the normaliser would again remove a
  bullet marker.
\<close>

theorem mediate_normalizes_counterexample:
  "llm_transform_world_state sample_py (Some dashes_backend) [] [] = Inr ([], lit ''- x'') \<and>
   normalize_summary (JStr (lit ''- x'')) 220 = lit ''x'' \<and>
   lit ''- x'' \<noteq> lit ''x''"
proof -
  have "\<exists>n. dumps_len sample_py (user_payload [] []) = Inr n"
    by (rule payload_encodable) simp_all
  then have "llm_transform_world_state sample_py (Some dashes_backend) [] [] = Inr ([], lit ''- x'')"
    by (auto simp: llm_transform_Some dashes_backend_def validate_parsed_obj spec_final_summary_def
          nonempty_str_def dict_get_def norm_dashes simp del: dumps_len.simps)
  then show ?thesis by (simp add: norm_dash)
qed

text \<open>The same reply: the returned summary is the normalised \<open>--  x\<close>.\<close>

theorem mediate_normalizes_witness:
  "llm_transform_world_state sample_py (Some dashes_backend) [] [] = Inr ([], lit ''- x'') \<and>
   lit ''- x'' = normalize_summary (JStr (lit ''--  x'')) 220"
proof -
  have "\<exists>n. dumps_len sample_py (user_payload [] []) = Inr n"
    by (rule payload_encodable) simp_all
  then obtain n where n: "dumps_len sample_py (user_payload [] []) = Inr n" by blast
  then have r: "llm_transform_world_state sample_py (Some dashes_backend) [] [] = Inr ([], lit ''- x'')"
    by (auto simp: llm_transform_Some dashes_backend_def validate_parsed_obj spec_final_summary_def
          nonempty_str_def dict_get_def norm_dashes simp del: dumps_len.simps)
  from mediate_normalizes [OF r] show ?thesis using r
    by (simp add: dashes_backend_def spec_chosen_summary_def spec_final_summary_def nonempty_str_def
          dict_get_def)
qed

text \<open>
  C9.  \<open>create_kingdom\<close> is to make sure that the requested name is in the state it
  saves (the comment at line 192 of server.py: ensure the intended name is recorded), but
  \<open>setdefault\<close> leaves a name that is already there in place.  When the tool is asked
  for Avalon and the state of the backend names the kingdom Zed, the stored state names it
  Zed, and Avalon is not recorded.
\<close>

theorem create_kingdom_keeps_backend_name:
  "create_kingdom sample_py (Some zed_backend) [50] (lit ''Avalon'') None open_store =
     Inr ((lit ''Hi'', [50]),
          open_store\<lparr>row := Some ([(skey ''kingdom_name'', JStr (lit ''Zed'')),
                                   (skey ''context'', JObj [])], [50])\<rparr>) \<and>
   dict_get [(skey ''kingdom_name'', JStr (lit ''Zed'')), (skey ''context'', JObj [])]
     (lit ''kingdom_name'') = JStr (lit ''Zed'') \<and>
   lit ''Zed'' \<noteq> lit ''Avalon''"
proof -
  from init_payload_encodable have
    "llm_transform_world_state sample_py (Some zed_backend) (init_intent (lit ''Avalon'') None) [] =
       Inr ([(skey ''kingdom_name'', JStr (lit ''Zed''))], lit ''Hi'')"
    by (auto simp: llm_transform_Some zed_backend_def validate_parsed_obj spec_final_summary_def
          nonempty_str_def dict_get_def norm_hi simp del: dumps_len.simps)
  moreover have "compact_world_state sample_py [(skey ''kingdom_name'', JStr (lit ''Zed''))] =
       Inr [(skey ''kingdom_name'', JStr (lit ''Zed'')), (skey ''context'', JObj [])]"
    by (simp add: compact_eval Let_def lit_def)
  ultimately show ?thesis
    by (simp add: create_kingdom_def save_world_state_def setdefault_def open_store_def
          dict_get_def)
qed

text \<open>
  C10.  Frame.  Whenever \<open>compact_world_state\<close> returns, every top-level key other than
  \<open>events_log\<close>, \<open>events_log_compacted\<close> and \<open>context\<close> is bound as in the input, and
  \<open>context\<close> is bound to a mapping; it is the empty mapping when the input has no
  \<open>context\<close> or a falsy one (\<open>None\<close>, \<open>0\<close>, \<open>False\<close>, an empty string, list or dict).
\<close>

theorem compact_frame:
  assumes "compact_world_state py s = Inr s'"
  shows "(\<forall>k. k \<noteq> skey ''events_log'' \<and> k \<noteq> skey ''events_log_compacted'' \<and>
              k \<noteq> skey ''context'' \<longrightarrow> map_of s' k = map_of s k) \<and>
         (\<exists>ctx. map_of s' (skey ''context'') = Some (JObj ctx)) \<and>
         (\<not> py_truthy (dict_get s (lit ''context'')) \<longrightarrow>
            map_of s' (skey ''context'') = Some (JObj []))"
proof -
  from compact_result [OF assms] obtain ws ev where
    s2: "compact_stage2 py s = Inr (ws, ev)" and
    fin: "if oversize py ws \<and> ev \<noteq> []
            then \<exists>p. compacted_of py ws = Inr p \<and>
                   s' = dict_set (lit ''events_log_compacted'')
                          (JInt (p + (int (length ev) - int (min 25 (length ev)))))
                          (dict_set (lit ''events_log'') (JList (last_n 25 ev)) ws)
            else s' = ws" by blast
  have f2: "map_of s' k = map_of ws k"
    if "k \<noteq> skey ''events_log''" "k \<noteq> skey ''events_log_compacted''" for k
    using fin that by (auto simp: map_of_dict_set split: if_splits)
  have f1: "map_of ws k = map_of s k"
    if "k \<noteq> skey ''events_log''" "k \<noteq> skey ''events_log_compacted''" "k \<noteq> skey ''context''"
    for k
    using stage2_result [OF s2] that by (auto simp: map_of_dict_set split: if_splits)
  from compact_context [OF assms] obtain ctx where
    d: "py_dict (py_or (dict_get s (lit ''context'')) (JObj [])) = Inr ctx" and
    m: "map_of s' (skey ''context'') =
             Some (JObj (clamp_key (lit ''news'') (clamp_key (lit ''weather'') ctx)))" by blast
  have "map_of s' (skey ''context'') = Some (JObj [])"
    if "\<not> py_truthy (dict_get s (lit ''context''))"
  proof -
    from that d have "ctx = []" by (simp add: py_or_def)
    then show ?thesis using m by (simp add: clamp_key_def dict_get_def)
  qed
  with f1 f2 m show ?thesis by simp
qed

text \<open>
  A \<open>context\<close> that is a non-empty string is not replaced by an empty mapping:
  \<open>dict("sunny")\<close> raises a ValueError and the compactor returns nothing.
\<close>

theorem compact_frame_counterexample:
  "compact_world_state sample_py [(skey ''context'', JStr (lit ''sunny''))] = Inl ValueError"
  by (simp add: compact_eval lit_def)

text \<open>A state with a \<open>day\<close> and no \<open>context\<close>.\<close>

theorem compact_frame_witness:
  "compact_world_state sample_py [(skey ''day'', JInt 3)] =
     Inr [(skey ''day'', JInt 3), (skey ''context'', JObj [])] \<and>
   map_of [(skey ''day'', JInt 3), (skey ''context'', JObj [])] (skey ''day'') =
     map_of [(skey ''day'', JInt 3)] (skey ''day'') \<and>
   map_of [(skey ''day'', JInt 3), (skey ''context'', JObj [])] (skey ''context'') =
     Some (JObj [])"
proof -
  have "\<not> py_truthy (dict_get [(skey ''day'', JInt 3)] (lit ''context''))"
    by (simp add: dict_get_def)
  moreover have "skey ''day'' \<noteq> skey ''events_log'' \<and> skey ''day'' \<noteq> skey ''events_log_compacted'' \<and>
     skey ''day'' \<noteq> skey ''context''" by simp
  ultimately show ?thesis using compact_frame [OF compact_day] compact_day by blast
qed

end
